theory Spec2Isabelle
  imports Complex_Main "HOL-Library.Sublist" "HOL-Library.AList"
begin

text \<open>
  The registration pipeline of the BMS scraper: \<open>scrapeRegistrationDetails\<close> (rows of the
  report table to ticket-holder records, expansion of complimentary tickets, backfill of
  transaction details within a transaction), its helpers \<open>parseNumber\<close> and
  \<open>extractProtectedEmail\<close>, and of \<open>calculateDashboardStats\<close> the matching of group
  members to registrations, the phone keys, and the referral histogram.
\<close>

section \<open>JavaScript strings\<close>

text \<open>
  A JavaScript string is modelled as a \<open>string\<close> whose characters are the code units
  below 256 (the Latin-1 range). \<open>String.prototype.trim\<close> and the regular-expression
  class \<open>\s\<close> remove the same characters; in this range they are TAB, LF, VT, FF, CR,
  SPACE and the no-break space.
\<close>

definition is_space :: "char \<Rightarrow> bool" where
  "is_space c = (let n = (of_char c :: nat) in (9 \<le> n \<and> n \<le> 13) \<or> n = 32 \<or> n = 160)"

definition trim :: "string \<Rightarrow> string" where
  "trim s = rev (dropWhile is_space (rev (dropWhile is_space s)))"

definition lower_char :: "char \<Rightarrow> char" where
  "lower_char c =
     (let n = (of_char c :: nat)
      in if (65 \<le> n \<and> n \<le> 90) \<or> (192 \<le> n \<and> n \<le> 222 \<and> n \<noteq> 215)
         then char_of (n + 32) else c)"

definition toLowerCase :: "string \<Rightarrow> string" where
  "toLowerCase s = map lower_char s"

fun startsWith :: "string \<Rightarrow> string \<Rightarrow> bool" where
  "startsWith s [] = True"
| "startsWith [] (p # ps) = False"
| "startsWith (c # cs) (p # ps) = (c = p \<and> startsWith cs ps)"

fun str_includes :: "string \<Rightarrow> string \<Rightarrow> bool" where
  "str_includes [] sub = (sub = [])"
| "str_includes (c # cs) sub = (startsWith (c # cs) sub \<or> str_includes cs sub)"

text \<open>\<open>s.split(sep)\<close> for a one-character separator: never the empty array.\<close>

fun split :: "char \<Rightarrow> string \<Rightarrow> string list" where
  "split sep [] = [[]]"
| "split sep (c # cs) =
     (if c = sep then [] # split sep cs
      else (case split sep cs of [] \<Rightarrow> [[c]] | w # ws \<Rightarrow> (c # w) # ws))"

fun join :: "char \<Rightarrow> string list \<Rightarrow> string" where
  "join sep [] = []"
| "join sep [w] = w"
| "join sep (w # v # ws) = w @ sep # join sep (v # ws)"

text \<open>\<open>parts[i]\<close> on an array of strings; \<open>None\<close> is \<open>undefined\<close>.\<close>

definition at_index :: "'a list \<Rightarrow> nat \<Rightarrow> 'a option" where
  "at_index xs i = (if i < length xs then Some (xs ! i) else None)"

text \<open>\<open>s.slice(-n)\<close>: the last \<open>n\<close> characters, the whole string when it is shorter.\<close>

definition slice_last :: "nat \<Rightarrow> string \<Rightarrow> string" where
  "slice_last n s = drop (length s - n) s"

text \<open>Decimal rendering of a non-negative integer, as a template literal prints it.\<close>

definition digit_char :: "nat \<Rightarrow> char" where
  "digit_char d = ''0123456789'' ! d"

fun show_nat :: "nat \<Rightarrow> string" where
  "show_nat n = (if n < 10 then [digit_char n] else show_nat (n div 10) @ [digit_char (n mod 10)])"

declare show_nat.simps [simp del]

text \<open>
  String comparison \<open>a >= b\<close>: lexicographic on code units, a proper prefix being smaller.
\<close>

fun str_less :: "string \<Rightarrow> string \<Rightarrow> bool" where
  "str_less [] [] = False"
| "str_less [] (b # bs) = True"
| "str_less (a # as) [] = False"
| "str_less (a # as) (b # bs) =
     ((of_char a :: nat) < of_char b \<or> (a = b \<and> str_less as bs))"

definition str_ge :: "string \<Rightarrow> string \<Rightarrow> bool" where
  "str_ge a b = (\<not> str_less a b)"


section \<open>JavaScript numbers\<close>

text \<open>
  A number is a real, one of the two infinities, or NaN. Reals stand for the finite
  doubles; rounding to the nearest double is not modelled, and \<open>-0\<close> is \<open>0\<close>.
\<close>

datatype jsnum = NaN | Num real | PosInf | NegInf

definition truthy_num :: "jsnum \<Rightarrow> bool" where
  "truthy_num n = (n \<noteq> NaN \<and> n \<noteq> Num 0)"

text \<open>\<open>a || b\<close> on numbers.\<close>

definition num_or :: "jsnum \<Rightarrow> jsnum \<Rightarrow> jsnum" where
  "num_or a b = (if truthy_num a then a else b)"

fun js_less :: "jsnum \<Rightarrow> jsnum \<Rightarrow> bool" where
  "js_less (Num a) (Num b) = (a < b)"
| "js_less (Num a) PosInf = True"
| "js_less NegInf (Num b) = True"
| "js_less NegInf PosInf = True"
| "js_less _ _ = False"

text \<open>\<open>a <= b\<close> on numbers.\<close>

definition js_le :: "jsnum \<Rightarrow> jsnum \<Rightarrow> bool" where
  "js_le a b = (a \<noteq> NaN \<and> b \<noteq> NaN \<and> \<not> js_less b a)"

definition is_digit :: "char \<Rightarrow> bool" where
  "is_digit c = (let n = (of_char c :: nat) in 48 \<le> n \<and> n \<le> 57)"

definition digits_val :: "string \<Rightarrow> nat" where
  "digits_val ds = foldl (\<lambda>acc c. 10 * acc + (of_char c - 48)) 0 ds"

text \<open>
  The built-in \<open>parseFloat\<close>: leading white space is skipped, then the longest prefix
  that is a decimal literal is read (sign, \<open>Infinity\<close>, or digits with an optional
  fraction and an optional well-formed exponent); no such prefix gives NaN.
\<close>

definition read_sign :: "string \<Rightarrow> bool \<times> string" where
  "read_sign s =
     (case s of c # cs \<Rightarrow> (if c = CHR ''-'' then (True, cs)
                             else if c = CHR ''+'' then (False, cs) else (False, s))
      | [] \<Rightarrow> (False, []))"

definition read_exponent :: "string \<Rightarrow> int" where
  "read_exponent s =
     (case s of
        c # cs \<Rightarrow>
          (if c = CHR ''e'' \<or> c = CHR ''E''
           then (let (neg, ds) = read_sign cs; e = takeWhile is_digit ds
                 in if e = [] then 0
                    else if neg then - int (digits_val e) else int (digits_val e))
           else 0)
      | [] \<Rightarrow> 0)"

definition scale10 :: "real \<Rightarrow> int \<Rightarrow> real" where
  "scale10 m e = (if 0 \<le> e then m * 10 ^ nat e else m / 10 ^ nat (- e))"

definition parseFloat :: "string \<Rightarrow> jsnum" where
  "parseFloat s =
     (let (neg, u) = read_sign (dropWhile is_space s)
      in if startsWith u ''Infinity'' then (if neg then NegInf else PosInf)
         else
           (let ip = takeWhile is_digit u;
                r1 = dropWhile is_digit u;
                has_dot = startsWith r1 ''.'';
                fp = (if has_dot then takeWhile is_digit (tl r1) else []);
                r2 = (if has_dot then dropWhile is_digit (tl r1) else r1)
            in if ip = [] \<and> fp = [] then NaN
               else
                 (let mant = real (digits_val ip) + real (digits_val fp) / 10 ^ length fp;
                      v = scale10 mant (read_exponent r2)
                  in Num (if neg then - v else v))))"

text \<open>\<open>parseNumber(text)\<close>: \<open>parseFloat(text.replace(/,/g, '').trim()) || 0\<close>.\<close>

definition parseNumber :: "string \<Rightarrow> jsnum" where
  "parseNumber text = num_or (parseFloat (trim (filter (\<lambda>c. c \<noteq> CHR '','') text))) (Num 0)"


section \<open>Protected e-mail extraction\<close>

text \<open>
  The pattern \<open>/([a-zA-Z0-9._%+-]+@[a-zA-Z0-9.-]+\.[a-zA-Z]{2,})/\<close>. At a start position
  the greedy local part is the whole run of local characters, since \<open>@\<close> is not one of
  them. The domain part is greedy too and backtracks: it ends at the last dot of the run
  of domain characters (not at its first position) that two letters follow; the letters
  after it are taken greedily. \<open>match\<close> returns the leftmost start position that succeeds.
\<close>

definition is_alpha :: "char \<Rightarrow> bool" where
  "is_alpha c = (let n = (of_char c :: nat) in (65 \<le> n \<and> n \<le> 90) \<or> (97 \<le> n \<and> n \<le> 122))"

definition is_local :: "char \<Rightarrow> bool" where
  "is_local c = (is_alpha c \<or> is_digit c \<or> c \<in> set ''._%+-'')"

definition is_domain :: "char \<Rightarrow> bool" where
  "is_domain c = (is_alpha c \<or> is_digit c \<or> c \<in> set ''.-'')"

definition domain_dot :: "string \<Rightarrow> nat option" where
  "domain_dot d =
     find (\<lambda>k. d ! k = CHR ''.'' \<and> 2 \<le> length (takeWhile is_alpha (drop (Suc k) d)))
          (rev [1..<length d])"

definition email_match_at :: "string \<Rightarrow> string option" where
  "email_match_at s =
     (let l = takeWhile is_local s
      in if l = [] then None
         else (case dropWhile is_local s of
                 [] \<Rightarrow> None
               | c # t \<Rightarrow>
                   (if c \<noteq> CHR ''@'' then None
                    else (let d = takeWhile is_domain t
                          in (case domain_dot d of
                                None \<Rightarrow> None
                              | Some k \<Rightarrow>
                                  Some (l @ CHR ''@'' # take k d @ CHR ''.'' #
                                        takeWhile is_alpha (drop (Suc k) d)))))))"

fun email_search :: "string \<Rightarrow> string option" where
  "email_search [] = email_match_at []"
| "email_search (c # cs) =
     (case email_match_at (c # cs) of Some m \<Rightarrow> Some m | None \<Rightarrow> email_search cs)"

definition protected_markup :: string where
  "protected_markup = ''[email&#160;protected]''"

definition protected_sentinel :: string where
  "protected_sentinel = ''[email protected]''"

definition extractProtectedEmail :: "string \<Rightarrow> string" where
  "extractProtectedEmail emailHtml =
     (if emailHtml = [] \<or> trim emailHtml = [] then []
      else if str_includes emailHtml protected_markup then protected_sentinel
      else (case email_search emailHtml of
              Some m \<Rightarrow> m
            | None \<Rightarrow> trim emailHtml))"


section \<open>The registration record\<close>

text \<open>
  One parsed ticket holder, as \<open>scrapeRegistrationDetails\<close> builds it. The fields kept
  are the ones the later passes read or write; the remaining columns (colours, survey
  answers, pin codes, remarks) and the constants and clock readings of the record are
  copied once and never read again. The five invitee triples \<open>name_i\<close>,
  \<open>mobile_number_i\<close>, \<open>email_id_i\<close> are the list \<open>referrals\<close>. \<open>registrationId\<close> is
  absent (\<open>None\<close>) on \<open>baseRecord\<close> and set on every copy that is stored.
\<close>

record registration =
  Bkg_Id :: string
  Trans_Id :: string
  Bkg_Commit :: string
  Trans_Date :: string
  Cinema_Name :: string
  Event_Name :: string
  Show_Date_Disp :: string
  Ticketwise_Qty :: jsnum
  Seat_Info :: string
  Ticket_Qty :: jsnum
  Ticket_Amt :: jsnum
  Item_Desc :: string
  ItemWise_Qty :: jsnum
  ItemWise_Amt :: jsnum
  Inv_Qty :: jsnum
  Inv_Amt :: jsnum
  Additional_Desc :: string
  Add_strAmt :: jsnum
  Add_Charges :: jsnum
  first_name :: string
  last_name :: string
  age :: jsnum
  gender :: string
  primary_phoneNo :: string
  primary_email :: string
  referrals :: "(string \<times> string \<times> string) list"
  full_name :: string
  FullName :: string
  MobileNumber :: string
  Email :: string
  customerName :: string
  phone :: string
  email :: string
  quantity :: jsnum
  amount :: jsnum
  registrationId :: "string option"


section \<open>Schema Normalizer: one table row\<close>

text \<open>
  \<open>$(cells[i]).text()\<close>: the text of the cell, the empty string when the row has no
  such cell.
\<close>

definition cell :: "string list \<Rightarrow> nat \<Rightarrow> string" where
  "cell cells i = (if i < length cells then cells ! i else [])"

definition cellTrim :: "string list \<Rightarrow> nat \<Rightarrow> string" where
  "cellTrim cells i = trim (cell cells i)"

definition transId :: "string list \<Rightarrow> string" where
  "transId cells = cellTrim cells 2"

definition ticketQty :: "string list \<Rightarrow> jsnum" where
  "ticketQty cells = num_or (parseNumber (cell cells 10)) (Num 1)"

definition ticketAmt :: "string list \<Rightarrow> jsnum" where
  "ticketAmt cells = num_or (parseNumber (cell cells 11)) (Num 0)"

definition seatInfo :: "string list \<Rightarrow> string" where
  "seatInfo cells = cellTrim cells 9"

definition isComplimentary :: "string list \<Rightarrow> bool" where
  "isComplimentary cells =
     (ticketAmt cells = Num 0 \<or>
      (seatInfo cells \<noteq> [] \<and> str_includes (toLowerCase (seatInfo cells)) ''complimentary''))"

text \<open>The local variables of the name resolution.\<close>

record row_names =
  firstName :: string
  lastName :: string
  custName :: string
  phoneNumber :: string

text \<open>Discrete first and last name, else the full-name cell split at its first space.\<close>

definition names_initial :: "string list \<Rightarrow> row_names" where
  "names_initial cells =
     (let firstName0 = cellTrim cells 20;
          lastName0 = cellTrim cells 21;
          fullNameField = cellTrim cells 45;
          (f, l) =
            (if (firstName0 = [] \<and> lastName0 = []) \<and> fullNameField \<noteq> []
             then (case split CHR '' '' fullNameField of
                     [] \<Rightarrow> (firstName0, lastName0)
                   | p # ps \<Rightarrow> (p, (let r = join CHR '' '' ps in if r = [] then p else r)))
             else (firstName0, lastName0))
      in \<lparr>firstName = f, lastName = l, custName = trim (f @ '' '' @ l),
          phoneNumber = cellTrim cells 24\<rparr>)"

text \<open>
  Complimentary rows without a usable name take the name and the mobile number of the
  columns 49 and 50; a parenthetical note after the name is cut off.
\<close>

definition names_comp :: "string list \<Rightarrow> row_names \<Rightarrow> row_names" where
  "names_comp cells nv =
     (if isComplimentary cells \<and>
         (firstName nv = [] \<or> startsWith (firstName nv) ''Guest_'' \<or> custName nv = [])
      then
        (let fullNameFromComp = cellTrim cells 49;
             mobileFromComp = cellTrim cells 50;
             nv1 =
               (if fullNameFromComp \<noteq> [] \<and> trim fullNameFromComp \<noteq> []
                then (let cleanName =
                            trim (case split CHR ''('' fullNameFromComp of [] \<Rightarrow> [] | p # ps \<Rightarrow> p)
                      in if cleanName \<noteq> []
                         then (case split CHR '' '' cleanName of
                                 [] \<Rightarrow> nv\<lparr>firstName := [], lastName := [], custName := cleanName\<rparr>
                               | p # ps \<Rightarrow>
                                   nv\<lparr>firstName := p, lastName := join CHR '' '' ps,
                                      custName := cleanName\<rparr>)
                         else nv)
                else nv)
         in if mobileFromComp \<noteq> [] \<and> trim mobileFromComp \<noteq> [] \<and> phoneNumber nv1 = []
            then nv1\<lparr>phoneNumber := mobileFromComp\<rparr> else nv1)
      else nv)"

text \<open>No name at all: a guest label from the first eight characters of the transaction id.\<close>

definition names_final :: "string list \<Rightarrow> row_names \<Rightarrow> row_names" where
  "names_final cells nv =
     (if custName nv = []
      then (let g = ''Guest_'' @ take 8 (transId cells)
            in nv\<lparr>firstName := g, lastName := [], custName := trim (g @ '' '' @ [])\<rparr>)
      else nv)"

definition resolve_names :: "string list \<Rightarrow> row_names" where
  "resolve_names cells = names_final cells (names_comp cells (names_initial cells))"

definition str_or :: "string \<Rightarrow> string \<Rightarrow> string" where
  "str_or a b = (if a \<noteq> [] then a else b)"

definition referral_slot :: "string list \<Rightarrow> nat \<Rightarrow> string \<times> string \<times> string" where
  "referral_slot cells i =
     (cellTrim cells (29 + 3 * i), cellTrim cells (30 + 3 * i),
      extractProtectedEmail (cellTrim cells (31 + 3 * i)))"

definition baseRecord :: "string list \<Rightarrow> registration" where
  "baseRecord cells =
     (let nv = resolve_names cells
      in \<lparr>Bkg_Id = cellTrim cells 1,
          Trans_Id = transId cells,
          Bkg_Commit = cellTrim cells 3,
          Trans_Date = cellTrim cells 4,
          Cinema_Name = cellTrim cells 5,
          Event_Name = str_or (cellTrim cells 6) ''Global Youth Festival 2025'',
          Show_Date_Disp = cellTrim cells 7,
          Ticketwise_Qty = num_or (parseNumber (cell cells 8)) (Num 0),
          Seat_Info = seatInfo cells,
          Ticket_Qty = Num 1,
          Ticket_Amt = ticketAmt cells,
          Item_Desc = cellTrim cells 12,
          ItemWise_Qty = num_or (parseNumber (cell cells 13)) (Num 0),
          ItemWise_Amt = num_or (parseNumber (cell cells 14)) (Num 0),
          Inv_Qty = num_or (parseNumber (cell cells 15)) (Num 0),
          Inv_Amt = num_or (parseNumber (cell cells 16)) (Num 0),
          Additional_Desc = cellTrim cells 17,
          Add_strAmt = num_or (parseNumber (cell cells 18)) (Num 0),
          Add_Charges = num_or (parseNumber (cell cells 19)) (Num 0),
          first_name = firstName nv,
          last_name = lastName nv,
          age = num_or (parseNumber (cell cells 22)) (num_or (parseNumber (cell cells 53)) (Num 0)),
          gender = cellTrim cells 23,
          primary_phoneNo = phoneNumber nv,
          primary_email = extractProtectedEmail (cellTrim cells 25),
          referrals = map (referral_slot cells) [0..<5],
          full_name = cellTrim cells 45,
          FullName = cellTrim cells 49,
          MobileNumber = cellTrim cells 50,
          Email = extractProtectedEmail (cellTrim cells 51),
          customerName = custName nv,
          phone = phoneNumber nv,
          email = extractProtectedEmail (cellTrim cells 25),
          quantity = Num 1,
          amount = ticketAmt cells,
          registrationId = None\<rparr>)"


section \<open>Ticket Expander\<close>

definition entriesToCreate :: "string list \<Rightarrow> jsnum" where
  "entriesToCreate cells =
     (if isComplimentary cells \<and> js_less (Num 1) (ticketQty cells) then ticketQty cells else Num 1)"

definition entry_record :: "jsnum \<Rightarrow> string \<Rightarrow> registration \<Rightarrow> nat \<Rightarrow> registration" where
  "entry_record n tid base entryIndex =
     base\<lparr>registrationId :=
            Some (if js_less (Num 1) n then tid @ ''_comp_'' @ show_nat (entryIndex + 1) else tid)\<rparr>"

text \<open>
  The loop \<open>for (entryIndex = 0; entryIndex < entriesToCreate; entryIndex++)\<close>, pushing
  one copy of the base record per round. The bound is a number read from the table, so
  the loop need not end: \<open>None\<close> is the loop that never returns (a run of the program
  ends it by exhausting memory). The counter is a natural number here; as a double it is
  exact below \<open>2^53\<close>.
\<close>

partial_function (option) entries_loop ::
  "jsnum \<Rightarrow> string \<Rightarrow> registration \<Rightarrow> nat \<Rightarrow> registration list \<Rightarrow> registration list option"
where
  "entries_loop n tid base entryIndex regs =
     (if js_less (Num (real entryIndex)) n
      then entries_loop n tid base (Suc entryIndex) (regs @ [entry_record n tid base entryIndex])
      else Some regs)"


section \<open>The row loop\<close>

record scrape_state =
  registrations :: "registration list"
  totalRowsProcessed :: nat
  skippedRows :: nat

text \<open>
  The callback of \<open>rows.each\<close> on one data row. No statement of the \<open>try\<close> block throws
  on cell texts, so its \<open>catch\<close> branch has no counterpart here.
\<close>

definition process_row :: "string list \<Rightarrow> scrape_state \<Rightarrow> scrape_state option" where
  "process_row cells st =
     (let st1 = st\<lparr>totalRowsProcessed := Suc (totalRowsProcessed st)\<rparr>
      in if length cells < 45 then Some (st1\<lparr>skippedRows := Suc (skippedRows st1)\<rparr>)
         else (case entries_loop (entriesToCreate cells) (transId cells) (baseRecord cells) 0
                      (registrations st1) of
                 None \<Rightarrow> None
               | Some regs \<Rightarrow> Some (st1\<lparr>registrations := regs\<rparr>)))"

fun parse_rows :: "string list list \<Rightarrow> scrape_state \<Rightarrow> scrape_state option" where
  "parse_rows [] st = Some st"
| "parse_rows (cells # rest) st =
     (case process_row cells st of None \<Rightarrow> None | Some st' \<Rightarrow> parse_rows rest st')"

text \<open>
  The data table is the first table whose text contains \<open>Cinema_Name\<close> and
  \<open>Event_Name\<close>. A row of it is given by the number of its \<open>th\<close> cells and the texts
  of its \<open>td\<close> cells. The header row is the first row with a \<open>th\<close> cell (row 0 when
  there is none); the rows after it are the data rows.
\<close>

record table_row =
  th_cells :: nat
  td_cells :: "string list"

definition headerRowIndex :: "table_row list \<Rightarrow> nat" where
  "headerRowIndex rows =
     (case find (\<lambda>i. 0 < th_cells (rows ! i)) [0..<length rows] of Some i \<Rightarrow> i | None \<Rightarrow> 0)"

definition parse_table :: "table_row list \<Rightarrow> scrape_state option" where
  "parse_table rows =
     parse_rows (map td_cells (drop (Suc (headerRowIndex rows)) rows))
       \<lparr>registrations = [], totalRowsProcessed = 0, skippedRows = 0\<rparr>"


section \<open>Transaction Backfill\<close>

text \<open>\<open>!v || v === '' || v === 0\<close> on a string field and on a number field.\<close>

definition fill_str :: "string \<Rightarrow> string \<Rightarrow> string" where
  "fill_str mine theirs = (if mine = [] then theirs else mine)"

definition fill_num :: "jsnum \<Rightarrow> jsnum \<Rightarrow> jsnum" where
  "fill_num mine theirs = (if \<not> truthy_num mine then theirs else mine)"

text \<open>The assignments of \<open>fieldsToFill.forEach\<close> on one person.\<close>

definition fill_person :: "registration \<Rightarrow> registration \<Rightarrow> registration" where
  "fill_person primaryHolder person =
     person\<lparr>Trans_Date := fill_str (Trans_Date person) (Trans_Date primaryHolder),
            Cinema_Name := fill_str (Cinema_Name person) (Cinema_Name primaryHolder),
            Event_Name := fill_str (Event_Name person) (Event_Name primaryHolder),
            Show_Date_Disp := fill_str (Show_Date_Disp person) (Show_Date_Disp primaryHolder),
            Ticketwise_Qty := fill_num (Ticketwise_Qty person) (Ticketwise_Qty primaryHolder),
            Seat_Info := fill_str (Seat_Info person) (Seat_Info primaryHolder),
            Ticket_Qty := fill_num (Ticket_Qty person) (Ticket_Qty primaryHolder),
            Ticket_Amt := fill_num (Ticket_Amt person) (Ticket_Amt primaryHolder),
            Item_Desc := fill_str (Item_Desc person) (Item_Desc primaryHolder),
            ItemWise_Qty := fill_num (ItemWise_Qty person) (ItemWise_Qty primaryHolder),
            ItemWise_Amt := fill_num (ItemWise_Amt person) (ItemWise_Amt primaryHolder),
            Inv_Qty := fill_num (Inv_Qty person) (Inv_Qty primaryHolder),
            Inv_Amt := fill_num (Inv_Amt person) (Inv_Amt primaryHolder),
            Additional_Desc := fill_str (Additional_Desc person) (Additional_Desc primaryHolder),
            Add_strAmt := fill_num (Add_strAmt person) (Add_strAmt primaryHolder),
            Add_Charges := fill_num (Add_Charges person) (Add_Charges primaryHolder),
            Bkg_Commit := fill_str (Bkg_Commit person) (Bkg_Commit primaryHolder)\<rparr>"

definition has_transaction_details :: "registration \<Rightarrow> bool" where
  "has_transaction_details person =
     (Trans_Date person \<noteq> [] \<and> Cinema_Name person \<noteq> [] \<and> Event_Name person \<noteq> [] \<and>
      Show_Date_Disp person \<noteq> [] \<and> js_less (Num 0) (Ticket_Qty person))"

text \<open>
  The array \<open>registrations\<close> is the store; a person is its position in it, so that
  \<open>person !== primaryHolder\<close> compares positions. \<open>transactionGroups\<close> maps a
  transaction id to the positions that carry it, keys in the order of first insertion.
  \<open>Object.keys\<close> lists keys that are array indices before the others, in ascending
  order; the groups are disjoint, and the pass gives the same records in whatever order
  they are visited (\<open>backfill_pass_any_order\<close> below).
\<close>

definition add_to_group :: "registration list \<Rightarrow> (string \<times> nat list) list \<Rightarrow> nat \<Rightarrow> (string \<times> nat list) list" where
  "add_to_group store groups i =
     (let k = Trans_Id (store ! i)
      in (case map_of groups k of
            None \<Rightarrow> groups @ [(k, [i])]
          | Some g \<Rightarrow> AList.update k (g @ [i]) groups))"

definition transactionGroups :: "registration list \<Rightarrow> (string \<times> nat list) list" where
  "transactionGroups store = foldl (add_to_group store) [] [0..<length store]"

definition primaryHolder :: "registration list \<Rightarrow> nat list \<Rightarrow> nat" where
  "primaryHolder store g =
     (case find (\<lambda>i. has_transaction_details (store ! i)) g of Some p \<Rightarrow> p | None \<Rightarrow> hd g)"

definition fill_group :: "nat list \<Rightarrow> registration list \<Rightarrow> registration list" where
  "fill_group g store =
     (if 1 < length g
      then (let p = primaryHolder store g
            in fold (\<lambda>i s. if i \<noteq> p then s[i := fill_person (s ! p) (s ! i)] else s) g store)
      else store)"

definition backfill_pass :: "registration list \<Rightarrow> registration list" where
  "backfill_pass store = fold fill_group (map snd (transactionGroups store)) store"

text \<open>
  \<open>transactionGroups\<close> is a plain object, so a transaction id that names a member of
  \<open>Object.prototype\<close> finds that member instead of an array, and \<open>push\<close> on it raises a
  \<open>TypeError\<close> before any record is touched.
\<close>

datatype error = TypeError

definition object_prototype_keys :: "string list" where
  "object_prototype_keys =
     [''constructor'', ''__defineGetter__'', ''__defineSetter__'', ''hasOwnProperty'',
      ''__lookupGetter__'', ''__lookupSetter__'', ''isPrototypeOf'', ''propertyIsEnumerable'',
      ''toString'', ''valueOf'', ''__proto__'', ''toLocaleString'']"

definition fillTransactionDetails :: "registration list \<Rightarrow> error + registration list" where
  "fillTransactionDetails store =
     (if list_ex (\<lambda>r. Trans_Id r \<in> set object_prototype_keys) store then Inl TypeError
      else Inr (backfill_pass store))"


text \<open>
  For stating what the pass does: the positions that carry a transaction id, one round
  of the inner \<open>forEach\<close>, and a record with its seventeen transaction-level fields set
  back to earlier values.
\<close>

definition group_of :: "registration list \<Rightarrow> string \<Rightarrow> nat list" where
  "group_of store k = filter (\<lambda>i. Trans_Id (store ! i) = k) [0..<length store]"

definition fill_step :: "nat \<Rightarrow> nat \<Rightarrow> registration list \<Rightarrow> registration list" where
  "fill_step p i s = (if i \<noteq> p then s[i := fill_person (s ! p) (s ! i)] else s)"

definition transaction_fields_reset :: "registration \<Rightarrow> registration \<Rightarrow> registration" where
  "transaction_fields_reset before after =
     after\<lparr>Trans_Date := Trans_Date before, Cinema_Name := Cinema_Name before,
           Event_Name := Event_Name before, Show_Date_Disp := Show_Date_Disp before,
           Ticketwise_Qty := Ticketwise_Qty before, Seat_Info := Seat_Info before,
           Ticket_Qty := Ticket_Qty before, Ticket_Amt := Ticket_Amt before,
           Item_Desc := Item_Desc before, ItemWise_Qty := ItemWise_Qty before,
           ItemWise_Amt := ItemWise_Amt before, Inv_Qty := Inv_Qty before,
           Inv_Amt := Inv_Amt before, Additional_Desc := Additional_Desc before,
           Add_strAmt := Add_strAmt before, Add_Charges := Add_Charges before,
           Bkg_Commit := Bkg_Commit before\<rparr>"


section \<open>Statistics: the documents\<close>

text \<open>
  \<open>calculateDashboardStats\<close> works on the documents of three collections. A field
  read as text is \<open>None\<close> when the document lacks it (\<open>undefined\<close> or \<open>null\<close>, which
  \<open>?.\<close>, \<open>||\<close> and \<open>&&\<close> do not tell apart) and a string otherwise. The invitee fields
  \<open>name_i\<close>, \<open>mobile_number_i\<close>, \<open>email_id_i\<close> of a registration are the list
  \<open>r_invitees\<close>, slot \<open>i\<close> at position \<open>i - 1\<close>; a document without them has the empty
  list.
\<close>

text \<open>
  The registration id is the key of the \<open>Map\<close> and the \<open>Set\<close> of the matching, which
  tell a missing id (\<open>undefined\<close>) from \<open>null\<close> and both from every string.
\<close>

datatype reg_id = IdMissing | IdNull | IdString string

record reg_doc =
  r_customerName :: "string option"
  r_phone :: "string option"
  r_primaryPhoneNo :: "string option"
  r_email :: "string option"
  r_age :: jsnum
  r_registrationId :: reg_id
  r_Ticket_Qty :: jsnum
  r_Trans_Date :: "string option"
  r_invitees :: "(string option \<times> string option \<times> string option) list"

record member =
  m_fullName :: "string option"
  m_mobileNumber :: "string option"
  m_alternateMobileNumber :: "string option"
  m_email :: "string option"
  m_age :: jsnum
  m_group :: "string option"

record participant =
  p_phone :: "string option"
  p_fullName :: "string option"
  p_years :: "nat list"
  p_age :: jsnum

text \<open>
  The document that \<open>insertMany\<close> stores for a record of the scraper. Of the fields that
  the statistics ask for, the record has all but \<open>primaryPhoneNo\<close> (it has
  \<open>primary_phoneNo\<close>).
\<close>

definition document_of :: "registration \<Rightarrow> reg_doc" where
  "document_of r =
     \<lparr>r_customerName = Some (customerName r), r_phone = Some (phone r),
      r_primaryPhoneNo = None, r_email = Some (email r), r_age = age r,
      r_registrationId = (case registrationId r of None \<Rightarrow> IdMissing | Some i \<Rightarrow> IdString i),
      r_Ticket_Qty = Ticket_Qty r, r_Trans_Date = Some (Trans_Date r),
      r_invitees = map (\<lambda>(n, mob, e). (Some n, Some mob, Some e)) (referrals r)\<rparr>"

text \<open>
  The registrations are fetched with a projection: \<open>customerName\<close>, \<open>phone\<close>,
  \<open>primaryPhoneNo\<close>, \<open>email\<close>, \<open>age\<close>, \<open>registrationId\<close>, \<open>Ticket_Qty\<close> and
  \<open>Trans_Date\<close>. No invitee field is listed, so the array \<open>registrations\<close> of the
  function holds documents without them.
\<close>

definition projected :: "reg_doc \<Rightarrow> reg_doc" where
  "projected d = d\<lparr>r_invitees := []\<rparr>"

definition fetch_registrations :: "reg_doc list \<Rightarrow> reg_doc list" where
  "fetch_registrations collection = map projected collection"


section \<open>Identity keys\<close>

text \<open>\<open>v?.toLowerCase().trim()\<close>.\<close>

definition normalized :: "string option \<Rightarrow> string option" where
  "normalized v = map_option (\<lambda>s. trim (toLowerCase s)) v"

text \<open>\<open>s.replace(/[\s\-\+]/g, '')\<close>.\<close>

definition strip_separators :: "string \<Rightarrow> string" where
  "strip_separators s = filter (\<lambda>c. \<not> (is_space c \<or> c = CHR ''-'' \<or> c = CHR ''+'')) s"

text \<open>\<open>s.replace(/^91/, '')\<close>, as the member matching writes it.\<close>

definition strip_91 :: "string \<Rightarrow> string" where
  "strip_91 s = (if startsWith s ''91'' then drop 2 s else s)"

text \<open>
  \<open>if (phone?.startsWith('91') && phone.length > 10) phone = phone.substring(2)\<close>, as
  the previous-participant lookup writes it.
\<close>

definition strip_91_long :: "string \<Rightarrow> string" where
  "strip_91_long s = (if startsWith s ''91'' \<and> 10 < length s then drop 2 s else s)"

text \<open>\<open>p && p.length >= 10 ? p.slice(-10) : null\<close>.\<close>

definition last10 :: "string option \<Rightarrow> string option" where
  "last10 p =
     (case p of None \<Rightarrow> None
      | Some s \<Rightarrow> if s \<noteq> [] \<and> 10 \<le> length s then Some (slice_last 10 s) else None)"

text \<open>\<open>reg.phone || reg.primaryPhoneNo || ''\<close>.\<close>

definition regPhone :: "reg_doc \<Rightarrow> string" where
  "regPhone reg =
     (case r_phone reg of
        Some s \<Rightarrow> if s \<noteq> [] then s
                  else (case r_primaryPhoneNo reg of Some t \<Rightarrow> t | None \<Rightarrow> [])
      | None \<Rightarrow> (case r_primaryPhoneNo reg of Some t \<Rightarrow> t | None \<Rightarrow> []))"

text \<open>The four places that compute a ten-digit key.\<close>

definition member_phone10 :: "member \<Rightarrow> string option" where
  "member_phone10 m = last10 (map_option (\<lambda>s. strip_91 (strip_separators s)) (m_mobileNumber m))"

definition matching_regPhone10 :: "reg_doc \<Rightarrow> string option" where
  "matching_regPhone10 reg = last10 (Some (strip_91 (strip_separators (regPhone reg))))"

definition participant_phone10 :: "participant \<Rightarrow> string option" where
  "participant_phone10 p =
     last10 (map_option (\<lambda>s. strip_91_long (strip_separators s)) (p_phone p))"

definition returning_phone10 :: "reg_doc \<Rightarrow> string option" where
  "returning_phone10 reg = last10 (Some (strip_91_long (strip_separators (regPhone reg))))"

text \<open>\<open>a && b && a === b\<close> on two keys.\<close>

definition same_key :: "string option \<Rightarrow> string option \<Rightarrow> bool" where
  "same_key a b =
     (case a of None \<Rightarrow> False
      | Some x \<Rightarrow> (case b of None \<Rightarrow> False | Some y \<Rightarrow> x \<noteq> [] \<and> y \<noteq> [] \<and> x = y))"


section \<open>Identity Matcher\<close>

text \<open>
  The loop state: the \<open>Map\<close> from registration id to member, entries in insertion
  order, and the \<open>Set\<close> of claimed registration ids.
\<close>

record match_state =
  arpitMemberRegistrations :: "(reg_id \<times> member) list"
  usedRegistrationIds :: "reg_id set"

definition nameMatchingRegs :: "reg_doc list \<Rightarrow> reg_id set \<Rightarrow> member \<Rightarrow> reg_doc list" where
  "nameMatchingRegs regs used m =
     filter (\<lambda>reg. r_registrationId reg \<notin> used \<and>
                    same_key (normalized (m_fullName m)) (normalized (r_customerName reg))) regs"

definition score :: "member \<Rightarrow> reg_doc \<Rightarrow> nat" where
  "score m reg =
     (if same_key (member_phone10 m) (matching_regPhone10 reg) then 3 else 0) +
     (if same_key (normalized (m_email m)) (normalized (r_email reg)) then 2 else 0)"

text \<open>The scoring loop: \<open>bestMatch\<close> starts as \<open>null\<close>, \<open>bestScore\<close> as 0.\<close>

definition best_step :: "member \<Rightarrow> reg_doc option \<times> nat \<Rightarrow> reg_doc \<Rightarrow> reg_doc option \<times> nat" where
  "best_step m best reg = (if snd best < score m reg then (Some reg, score m reg) else best)"

definition best_match :: "member \<Rightarrow> reg_doc list \<Rightarrow> reg_doc option \<times> nat" where
  "best_match m candidates = foldl (best_step m) (None, 0) candidates"

definition name_step :: "reg_doc list \<Rightarrow> reg_id set \<Rightarrow> member \<Rightarrow> reg_doc option" where
  "name_step regs used m =
     (let candidates = nameMatchingRegs regs used m
      in if 0 < length candidates
         then (case best_match m candidates of
                 (Some bestMatch, bestScore) \<Rightarrow>
                   if 0 < bestScore \<or> length candidates = 1 then Some bestMatch else None
               | (None, bestScore) \<Rightarrow> None)
         else None)"

definition phone_step :: "reg_doc list \<Rightarrow> reg_id set \<Rightarrow> member \<Rightarrow> reg_doc option" where
  "phone_step regs used m =
     find (\<lambda>reg. r_registrationId reg \<notin> used \<and>
                  same_key (matching_regPhone10 reg) (member_phone10 m)) regs"

definition email_step :: "reg_doc list \<Rightarrow> reg_id set \<Rightarrow> member \<Rightarrow> reg_doc option" where
  "email_step regs used m =
     find (\<lambda>reg. r_registrationId reg \<notin> used \<and>
                  same_key (normalized (r_email reg)) (normalized (m_email m))) regs"

definition matchedReg :: "reg_doc list \<Rightarrow> reg_id set \<Rightarrow> member \<Rightarrow> reg_doc option" where
  "matchedReg regs used m =
     (let byName = name_step regs used m;
          byPhone = (if byName = None \<and> member_phone10 m \<noteq> None
                     then phone_step regs used m else byName)
      in if byPhone = None \<and> normalized (m_email m) \<noteq> None \<and> normalized (m_email m) \<noteq> Some []
         then email_step regs used m else byPhone)"

definition match_member :: "reg_doc list \<Rightarrow> match_state \<Rightarrow> member \<Rightarrow> match_state" where
  "match_member regs st m =
     (case matchedReg regs (usedRegistrationIds st) m of
        None \<Rightarrow> st
      | Some reg \<Rightarrow>
          \<lparr>arpitMemberRegistrations =
             AList.update (r_registrationId reg) m (arpitMemberRegistrations st),
           usedRegistrationIds = insert (r_registrationId reg) (usedRegistrationIds st)\<rparr>)"

definition match_members :: "reg_doc list \<Rightarrow> member list \<Rightarrow> match_state" where
  "match_members regs members =
     foldl (match_member regs) \<lparr>arpitMemberRegistrations = [], usedRegistrationIds = {}\<rparr> members"

text \<open>
  The lookup of the statistics loop: \<open>isMumukshu\<close> is \<open>has(registration.registrationId)\<close>,
  and \<open>arpitMember\<close> the member that \<open>get\<close> returns, \<open>null\<close> otherwise.
\<close>

definition arpitMember :: "match_state \<Rightarrow> reg_doc \<Rightarrow> member option" where
  "arpitMember st registration = map_of (arpitMemberRegistrations st) (r_registrationId registration)"


section \<open>Referral histogram\<close>

text \<open>
  \<open>parseTransDate\<close>: the text before the first space, cut at its hyphens and put back
  as year, month, day. A missing piece prints as \<open>undefined\<close>.
\<close>

definition piece :: "string list \<Rightarrow> nat \<Rightarrow> string" where
  "piece parts i = (case at_index parts i of Some x \<Rightarrow> x | None \<Rightarrow> ''undefined'')"

definition date_key :: "string \<Rightarrow> string" where
  "date_key s =
     (let datePart = (case split CHR '' '' s of [] \<Rightarrow> [] | d # ds \<Rightarrow> d);
          parts = split CHR ''-'' datePart
      in piece parts 2 @ ''-'' @ piece parts 1 @ ''-'' @ piece parts 0)"

definition parseTransDate :: "string option \<Rightarrow> string option" where
  "parseTransDate transDate =
     (case transDate of
        None \<Rightarrow> None
      | Some s \<Rightarrow> if s = [] then None else Some (date_key s))"

definition referralCutoffDate :: string where
  "referralCutoffDate = ''2025-10-09''"

text \<open>\<open>if (regDate && regDate >= referralCutoffDate) continue\<close>.\<close>

definition skipped_by_cutoff :: "reg_doc \<Rightarrow> bool" where
  "skipped_by_cutoff reg =
     (case parseTransDate (r_Trans_Date reg) of
        None \<Rightarrow> False
      | Some regDate \<Rightarrow> regDate \<noteq> [] \<and> str_ge regDate referralCutoffDate)"

definition truthy_str :: "string option \<Rightarrow> bool" where
  "truthy_str v = (case v of None \<Rightarrow> False | Some s \<Rightarrow> s \<noteq> [])"

definition slot_filled :: "reg_doc \<Rightarrow> nat \<Rightarrow> bool" where
  "slot_filled reg i =
     (case at_index (r_invitees reg) (i - 1) of
        None \<Rightarrow> False
      | Some (n, mob, e) \<Rightarrow> truthy_str n \<or> truthy_str mob \<or> truthy_str e)"

definition inviteeCount :: "reg_doc \<Rightarrow> nat" where
  "inviteeCount reg = length (filter (slot_filled reg) [1..<6])"

definition referral_step :: "nat list \<Rightarrow> reg_doc \<Rightarrow> nat list" where
  "referral_step stats reg =
     (if skipped_by_cutoff reg then stats
      else stats[inviteeCount reg := stats ! inviteeCount reg + 1])"

text \<open>The histogram, computed from the registrations as fetched.\<close>

definition referralStats :: "reg_doc list \<Rightarrow> nat list" where
  "referralStats collection =
     foldl referral_step [0, 0, 0, 0, 0, 0] (fetch_registrations collection)"


text \<open>
  The invariant of the matching loop: the keys of the map are the claimed ids, each once.
  The map and the set know a registration by its \<open>registrationId\<close> only.
\<close>

definition links_ok :: "match_state \<Rightarrow> bool" where
  "links_ok st = (fst ` set (arpitMemberRegistrations st) = usedRegistrationIds st \<and>
                  distinct (map fst (arpitMemberRegistrations st)))"


section \<open>Sample tables and documents\<close>

text \<open>
  Table rows of 54 cells, given by their non-empty cells: a complimentary row of three
  tickets, a paid row of the current form, a complimentary row whose quantity cell reads
  \<open>Infinity\<close>, a row that is too short, a row whose e-mail cell is no address, two rows
  of one paid transaction, the first without its transaction date, the second without its
  seat, and the two rows of a transaction of two people, each with a name and a phone.
\<close>

definition row_of :: "(nat \<times> string) list \<Rightarrow> string list" where
  "row_of kvs = map (\<lambda>i. case map_of kvs i of Some v \<Rightarrow> v | None \<Rightarrow> []) [0..<54]"

definition header_row :: table_row where
  "header_row = \<lparr>th_cells = 54, td_cells = []\<rparr>"

definition data_row :: "string list \<Rightarrow> table_row" where
  "data_row cells = \<lparr>th_cells = 0, td_cells = cells\<rparr>"

definition initial_state :: scrape_state where
  "initial_state = \<lparr>registrations = [], totalRowsProcessed = 0, skippedRows = 0\<rparr>"

definition comp_row :: "string list" where
  "comp_row = row_of [(2, ''T1''), (10, ''3''), (11, ''0''), (20, ''Disha''), (21, ''Daga'')]"

definition paid_row :: "string list" where
  "paid_row = row_of [(2, ''T2''), (10, ''2''), (11, ''1,500''), (45, ''Diva Sheth'')]"

definition endless_row :: "string list" where
  "endless_row = row_of [(2, ''T3''), (10, ''Infinity'')]"

definition short_row :: "string list" where
  "short_row = [''subtotal'', ''3'']"

definition chatty_row :: "string list" where
  "chatty_row = row_of [(2, ''T9''), (20, ''Kavi''), (25, '' call me '')]"

definition row_a :: "string list" where
  "row_a = row_of [(2, ''T7''), (5, ''Garden''), (7, ''Dec 6''), (9, ''A1''), (10, ''1''),
     (11, ''750''), (20, ''Asha''), (21, ''Shah'')]"

definition row_b :: "string list" where
  "row_b = row_of [(2, ''T7''), (4, ''17-09-2025 20:54:18''), (5, ''Garden''), (7, ''Dec 6''),
     (10, ''1''), (11, ''750''), (20, ''Bela''), (21, ''Shah'')]"

definition row_p :: "string list" where
  "row_p = row_of [(2, ''T5''), (4, ''20-09-2025 10:00:00''), (5, ''Garden''), (7, ''Dec 6''),
     (10, ''1''), (11, ''750''), (20, ''Maya''), (21, ''Jain''), (24, ''9820011111'')]"

definition row_q :: "string list" where
  "row_q = row_of [(2, ''T5''), (4, ''20-09-2025 10:00:00''), (5, ''Garden''), (7, ''Dec 6''),
     (10, ''1''), (11, ''750''), (20, ''Neel''), (21, ''Jain''), (24, ''9820022222'')]"

text \<open>The two records that the rows \<open>row_a\<close> and \<open>row_b\<close> are parsed into.\<close>

definition holder_a :: registration where
  "holder_a =
     \<lparr>Bkg_Id = [], Trans_Id = ''T7'', Bkg_Commit = [], Trans_Date = [],
      Cinema_Name = ''Garden'', Event_Name = ''Global Youth Festival 2025'',
      Show_Date_Disp = ''Dec 6'', Ticketwise_Qty = Num 0, Seat_Info = ''A1'',
      Ticket_Qty = Num 1, Ticket_Amt = Num 750, Item_Desc = [], ItemWise_Qty = Num 0,
      ItemWise_Amt = Num 0, Inv_Qty = Num 0, Inv_Amt = Num 0, Additional_Desc = [],
      Add_strAmt = Num 0, Add_Charges = Num 0, first_name = ''Asha'', last_name = ''Shah'',
      age = Num 0, gender = [], primary_phoneNo = [], primary_email = [],
      referrals = [([], [], []), ([], [], []), ([], [], []), ([], [], []), ([], [], [])],
      full_name = [], FullName = [], MobileNumber = [], Email = [],
      customerName = ''Asha Shah'', phone = [], email = [], quantity = Num 1, amount = Num 750,
      registrationId = Some ''T7''\<rparr>"

definition holder_b :: registration where
  "holder_b =
     \<lparr>Bkg_Id = [], Trans_Id = ''T7'', Bkg_Commit = [], Trans_Date = ''17-09-2025 20:54:18'',
      Cinema_Name = ''Garden'', Event_Name = ''Global Youth Festival 2025'',
      Show_Date_Disp = ''Dec 6'', Ticketwise_Qty = Num 0, Seat_Info = [],
      Ticket_Qty = Num 1, Ticket_Amt = Num 750, Item_Desc = [], ItemWise_Qty = Num 0,
      ItemWise_Amt = Num 0, Inv_Qty = Num 0, Inv_Amt = Num 0, Additional_Desc = [],
      Add_strAmt = Num 0, Add_Charges = Num 0, first_name = ''Bela'', last_name = ''Shah'',
      age = Num 0, gender = [], primary_phoneNo = [], primary_email = [],
      referrals = [([], [], []), ([], [], []), ([], [], []), ([], [], []), ([], [], [])],
      full_name = [], FullName = [], MobileNumber = [], Email = [],
      customerName = ''Bela Shah'', phone = [], email = [], quantity = Num 1, amount = Num 750,
      registrationId = Some ''T7''\<rparr>"

definition holder_a_dated :: registration where
  "holder_a_dated = holder_a\<lparr>Trans_Date := ''17-09-2025 20:54:18''\<rparr>"

text \<open>
  A third record of that transaction, with neither date nor seat: it has nothing that
  \<open>holder_b\<close> lacks.
\<close>

definition holder_c :: registration where
  "holder_c = holder_a\<lparr>Seat_Info := [], first_name := ''Chitra'', customerName := ''Chitra Shah''\<rparr>"

definition holder_c_dated :: registration where
  "holder_c_dated = holder_c\<lparr>Trans_Date := ''17-09-2025 20:54:18''\<rparr>"

text \<open>The two records that the rows \<open>row_p\<close> and \<open>row_q\<close> are parsed into.\<close>

definition holder_p :: registration where
  "holder_p =
     \<lparr>Bkg_Id = [], Trans_Id = ''T5'', Bkg_Commit = [], Trans_Date = ''20-09-2025 10:00:00'',
      Cinema_Name = ''Garden'', Event_Name = ''Global Youth Festival 2025'',
      Show_Date_Disp = ''Dec 6'', Ticketwise_Qty = Num 0, Seat_Info = [],
      Ticket_Qty = Num 1, Ticket_Amt = Num 750, Item_Desc = [], ItemWise_Qty = Num 0,
      ItemWise_Amt = Num 0, Inv_Qty = Num 0, Inv_Amt = Num 0, Additional_Desc = [],
      Add_strAmt = Num 0, Add_Charges = Num 0, first_name = ''Maya'', last_name = ''Jain'',
      age = Num 0, gender = [], primary_phoneNo = ''9820011111'', primary_email = [],
      referrals = [([], [], []), ([], [], []), ([], [], []), ([], [], []), ([], [], [])],
      full_name = [], FullName = [], MobileNumber = [], Email = [],
      customerName = ''Maya Jain'', phone = ''9820011111'', email = [], quantity = Num 1,
      amount = Num 750, registrationId = Some ''T5''\<rparr>"

definition holder_q :: registration where
  "holder_q =
     \<lparr>Bkg_Id = [], Trans_Id = ''T5'', Bkg_Commit = [], Trans_Date = ''20-09-2025 10:00:00'',
      Cinema_Name = ''Garden'', Event_Name = ''Global Youth Festival 2025'',
      Show_Date_Disp = ''Dec 6'', Ticketwise_Qty = Num 0, Seat_Info = [],
      Ticket_Qty = Num 1, Ticket_Amt = Num 750, Item_Desc = [], ItemWise_Qty = Num 0,
      ItemWise_Amt = Num 0, Inv_Qty = Num 0, Inv_Amt = Num 0, Additional_Desc = [],
      Add_strAmt = Num 0, Add_Charges = Num 0, first_name = ''Neel'', last_name = ''Jain'',
      age = Num 0, gender = [], primary_phoneNo = ''9820022222'', primary_email = [],
      referrals = [([], [], []), ([], [], []), ([], [], []), ([], [], []), ([], [], [])],
      full_name = [], FullName = [], MobileNumber = [], Email = [],
      customerName = ''Neel Jain'', phone = ''9820022222'', email = [], quantity = Num 1,
      amount = Num 750, registrationId = Some ''T5''\<rparr>"

text \<open>
  Documents: a registration and a member who share a name and nothing else; the stored
  documents of \<open>holder_p\<close> and \<open>holder_q\<close> as the statistics fetch them, and the two
  members who are these people; a member, a registration and a previous participant with
  one phone number; registrations dated before the cutoff, on it, and not at all.
\<close>

definition blank_doc :: reg_doc where
  "blank_doc = \<lparr>r_customerName = None, r_phone = None, r_primaryPhoneNo = None, r_email = None,
     r_age = Num 0, r_registrationId = IdMissing, r_Ticket_Qty = Num 1, r_Trans_Date = None,
     r_invitees = []\<rparr>"

definition blank_member :: member where
  "blank_member = \<lparr>m_fullName = None, m_mobileNumber = None, m_alternateMobileNumber = None,
     m_email = None, m_age = Num 0, m_group = None\<rparr>"

definition lone_reg :: reg_doc where
  "lone_reg = blank_doc\<lparr>r_customerName := Some ''Asha Shah'', r_registrationId := IdString ''T7''\<rparr>"

definition lone_member :: member where
  "lone_member = blank_member\<lparr>m_fullName := Some '' asha shah'', m_group := Some ''YG''\<rparr>"

definition doc_p :: reg_doc where
  "doc_p = \<lparr>r_customerName = Some ''Maya Jain'', r_phone = Some ''9820011111'',
     r_primaryPhoneNo = None, r_email = Some [], r_age = Num 0,
     r_registrationId = IdString ''T5'', r_Ticket_Qty = Num 1,
     r_Trans_Date = Some ''20-09-2025 10:00:00'', r_invitees = []\<rparr>"

definition doc_q :: reg_doc where
  "doc_q = \<lparr>r_customerName = Some ''Neel Jain'', r_phone = Some ''9820022222'',
     r_primaryPhoneNo = None, r_email = Some [], r_age = Num 0,
     r_registrationId = IdString ''T5'', r_Ticket_Qty = Num 1,
     r_Trans_Date = Some ''20-09-2025 10:00:00'', r_invitees = []\<rparr>"

definition member_p :: member where
  "member_p = blank_member\<lparr>m_fullName := Some ''Maya Jain'', m_mobileNumber := Some ''9820011111''\<rparr>"

definition member_q :: member where
  "member_q = blank_member\<lparr>m_fullName := Some ''Neel Jain'', m_mobileNumber := Some ''9820022222''\<rparr>"

definition phone_91_member :: member where
  "phone_91_member = blank_member\<lparr>m_mobileNumber := Some ''9123456789''\<rparr>"

definition phone_91_reg :: reg_doc where
  "phone_91_reg = blank_doc\<lparr>r_phone := Some ''9123456789''\<rparr>"

definition phone_91_participant :: participant where
  "phone_91_participant =
     \<lparr>p_phone = Some ''9123456789'', p_fullName = None, p_years = [2023], p_age = Num 0\<rparr>"

definition early_reg :: reg_doc where
  "early_reg = blank_doc\<lparr>r_Trans_Date := Some ''08-10-2025 21:15:00'',
     r_invitees := [(Some ''Bela'', Some [], None), (None, None, None), (None, Some ''9820033333'', None)]\<rparr>"

definition late_reg :: reg_doc where
  "late_reg = blank_doc\<lparr>r_Trans_Date := Some ''09-10-2025 00:00:01'',
     r_invitees := [(Some ''Bela'', None, None)]\<rparr>"

definition undated_reg :: reg_doc where
  "undated_reg = blank_doc\<lparr>r_customerName := Some ''Diva Sheth'', r_Trans_Date := Some []\<rparr>"



section \<open>Protected e-mail extraction: what passes through\<close>

lemma dropWhile_fixed: "xs = [] \<or> \<not> P (hd xs) \<Longrightarrow> dropWhile P xs = xs"
  by (cases xs) auto

lemma dropWhile_head: "dropWhile P xs = [] \<or> \<not> P (hd (dropWhile P xs))"
  using hd_dropWhile [of P xs] by blast

lemma rev_dropWhile_rev: "\<exists>k. rev (dropWhile P (rev a)) = take k a"
proof -
  have "dropWhile P (rev a) = drop (length (takeWhile P (rev a))) (rev a)"
    by (rule dropWhile_eq_drop)
  then have "rev (dropWhile P (rev a)) = take (length a - length (takeWhile P (rev a))) a"
    by (simp only: rev_drop rev_rev_ident length_rev)
  then show ?thesis ..
qed

lemma trim_head: "trim s = [] \<or> \<not> is_space (hd (trim s))"
proof -
  let ?a = "dropWhile is_space s"
  from rev_dropWhile_rev [of is_space ?a] obtain k where t: "trim s = take k ?a"
    unfolding trim_def ..
  show ?thesis
  proof (cases "trim s = []")
    case True
    then show ?thesis by simp
  next
    case False
    with t have h: "hd (trim s) = hd ?a" and ne: "?a \<noteq> []" by auto
    from ne hd_dropWhile [of is_space s] have "\<not> is_space (hd ?a)" by blast
    then show ?thesis by (simp only: h) simp
  qed
qed

lemma trim_last: "trim s = [] \<or> \<not> is_space (hd (rev (trim s)))"
  using dropWhile_head [of is_space "rev (dropWhile is_space s)"]
  by (simp add: trim_def)

lemma trim_trim: "trim (trim s) = trim s"
proof -
  have 1: "dropWhile is_space (trim s) = trim s"
    using trim_head [of s] by (intro dropWhile_fixed) simp
  have 2: "dropWhile is_space (rev (trim s)) = rev (trim s)"
    using trim_last [of s] by (intro dropWhile_fixed) simp
  show ?thesis
    unfolding trim_def [of "trim s"] 1 2 by simp
qed

lemma cellTrim_trim: "trim (cellTrim cells i) = cellTrim cells i"
  by (simp add: cellTrim_def trim_trim)

lemma email_match_at_nonempty: "email_match_at s = Some m \<Longrightarrow> m \<noteq> []"
  by (auto simp: email_match_at_def Let_def split: if_splits list.splits option.splits)

lemma email_search_nonempty: "email_search s = Some m \<Longrightarrow> m \<noteq> []"
  by (induction s) (auto dest: email_match_at_nonempty split: option.splits)

text \<open>
  Claim C10. When the cell holds neither the protected-e-mail markup nor a substring of
  e-mail shape, \<open>extractProtectedEmail\<close> returns the trimmed text itself, not the empty
  string and not the sentinel; its result is the empty string exactly for an empty or
  white-space-only input. Such a text in the primary e-mail cell of a row is therefore
  what the record carries in \<open>primary_email\<close> and \<open>email\<close>.
\<close>

theorem extractProtectedEmail_passthrough:
  "(\<not> str_includes s protected_markup \<and> email_search s = None \<longrightarrow> extractProtectedEmail s = trim s)
   \<and> (extractProtectedEmail s = [] \<longleftrightarrow> trim s = [])
   \<and> (\<not> str_includes (cellTrim cells 25) protected_markup \<and> email_search (cellTrim cells 25) = None \<longrightarrow>
        primary_email (baseRecord cells) = cellTrim cells 25 \<and>
        email (baseRecord cells) = cellTrim cells 25)"
  by (auto simp: extractProtectedEmail_def protected_sentinel_def trim_def [of s]
           baseRecord_def Let_def cellTrim_trim
           dest: email_search_nonempty split: option.splits)

theorem extractProtectedEmail_passthrough_witness:
  "\<not> str_includes '' call me '' protected_markup \<and> email_search '' call me '' = None
   \<and> extractProtectedEmail '' call me '' = ''call me''
   \<and> cellTrim chatty_row 25 = ''call me''
   \<and> \<not> str_includes ''call me'' protected_markup \<and> email_search ''call me'' = None
   \<and> primary_email (baseRecord chatty_row) = ''call me''
   \<and> email (baseRecord chatty_row) = ''call me''"
proof -
  have a: "\<not> str_includes '' call me '' protected_markup"
    "\<not> str_includes ''call me'' protected_markup"
    by (simp_all add: protected_markup_def)
  have b: "email_search '' call me '' = None" "email_search ''call me'' = None"
    by (simp_all add: email_match_at_def is_local_def is_alpha_def is_digit_def)
  have c: "trim '' call me '' = ''call me''"
    by (simp add: trim_def is_space_def)
  have d: "cellTrim chatty_row 25 = ''call me''"
    by (simp add: cellTrim_def cell_def chatty_row_def row_of_def trim_def is_space_def)
  from extractProtectedEmail_passthrough [of "'' call me ''" chatty_row] a b c d show ?thesis
    by simp
qed


section \<open>The expansion loop\<close>

lemma real_less_iff_ceiling: "(real i < q) = (i < nat \<lceil>q\<rceil>)"
  by (metis less_ceiling_iff of_int_of_nat_eq zless_nat_eq_int_zless)

lemma entries_loop_Num:
  "entries_loop (Num q) tid base i regs =
     Some (regs @ map (entry_record (Num q) tid base) [i..<nat \<lceil>q\<rceil>])"
proof (induction "nat \<lceil>q\<rceil> - i" arbitrary: i regs)
  case 0
  then have ge: "\<not> i < nat \<lceil>q\<rceil>" by arith
  then have "\<not> real i < q" by (simp add: real_less_iff_ceiling)
  with ge show ?case by (subst entries_loop.simps) simp
next
  case (Suc d)
  then have lt: "i < nat \<lceil>q\<rceil>" by arith
  then have "real i < q" by (simp add: real_less_iff_ceiling)
  moreover have "d = nat \<lceil>q\<rceil> - Suc i" using Suc(2) by arith
  ultimately show ?case using Suc(1)[of "Suc i"] lt
    by (subst entries_loop.simps) (simp add: upt_conv_Cons)
qed

lemma entries_loop_PosInf: "entries_loop PosInf tid base i regs = None"
proof -
  have "n \<noteq> PosInf" if "entries_loop n tid base i regs = Some y" for n y
    using that
    by (rule entries_loop.raw_induct[where P = "\<lambda>n tid base i regs y. n \<noteq> PosInf", rotated])
       (auto split: if_splits)
  then show ?thesis by (cases "entries_loop PosInf tid base i regs") auto
qed

lemma entries_loop_stop:
  "\<not> js_less (Num 0) n \<Longrightarrow> entries_loop n tid base 0 regs = Some regs"
  by (subst entries_loop.simps) simp

lemma entries_loop_result:
  assumes "entries_loop n tid base i regs = Some out"
  shows "\<exists>ks. out = regs @ map (entry_record n tid base) ks"
proof (cases n)
  case (Num q)
  with assms show ?thesis by (auto simp: entries_loop_Num)
next
  case PosInf
  with assms show ?thesis by (simp add: entries_loop_PosInf)
next
  case NaN
  with assms have "out = regs" by (subst (asm) entries_loop.simps) simp
  then show ?thesis by (intro exI [of _ "[]"]) simp
next
  case NegInf
  with assms have "out = regs" by (subst (asm) entries_loop.simps) simp
  then show ?thesis by (intro exI [of _ "[]"]) simp
qed

lemma entry_record_fields:
  "customerName (entry_record n tid base i) = customerName base"
  "Ticket_Qty (entry_record n tid base i) = Ticket_Qty base"
  "quantity (entry_record n tid base i) = quantity base"
  by (simp_all add: entry_record_def)

lemma ticketQty_not_NaN: "ticketQty cells \<noteq> NaN" "ticketQty cells \<noteq> Num 0"
  by (auto simp: ticketQty_def num_or_def truthy_num_def)

lemma entriesToCreate_cases:
  "entriesToCreate cells = PosInf \<or> (\<exists>q. entriesToCreate cells = Num q \<and> 1 \<le> q)"
  by (cases "ticketQty cells") (auto simp: entriesToCreate_def)

lemma process_row_short:
  "length cells < 45 \<Longrightarrow>
   process_row cells st =
     Some (st\<lparr>totalRowsProcessed := Suc (totalRowsProcessed st),
              skippedRows := Suc (skippedRows st)\<rparr>)"
  by (simp add: process_row_def Let_def)

lemma process_row_finite:
  "45 \<le> length cells \<Longrightarrow> entriesToCreate cells = Num q \<Longrightarrow>
   process_row cells st =
     Some (st\<lparr>totalRowsProcessed := Suc (totalRowsProcessed st),
              registrations := registrations st @
                map (entry_record (Num q) (transId cells) (baseRecord cells)) [0..<nat \<lceil>q\<rceil>]\<rparr>)"
  by (simp add: process_row_def Let_def entries_loop_Num)

lemma process_row_endless:
  "45 \<le> length cells \<Longrightarrow> entriesToCreate cells = PosInf \<Longrightarrow> process_row cells st = None"
  by (simp add: process_row_def Let_def entries_loop_PosInf)

lemma parse_table_rows:
  "parse_table (header_row # map data_row rows) = parse_rows rows initial_state"
proof -
  have "[0..<length (header_row # map data_row rows)] = 0 # [Suc 0..<Suc (length rows)]"
    by (simp add: upt_conv_Cons del: upt_Suc)
  then have "headerRowIndex (header_row # map data_row rows) = 0"
    unfolding headerRowIndex_def by (simp add: header_row_def)
  then show ?thesis
    by (simp add: parse_table_def initial_state_def data_row_def comp_def)
qed


section \<open>The sample rows, evaluated\<close>

lemma cell_row_of:
  "cell (row_of kvs) i = (if i < 54 then (case map_of kvs i of Some v \<Rightarrow> v | None \<Rightarrow> []) else [])"
  by (simp add: cell_def row_of_def)

lemma length_row_of: "length (row_of kvs) = 54"
  by (simp add: row_of_def)

lemmas eval_text = trim_def is_space_def toLowerCase_def lower_char_def

lemmas eval_num = parseNumber_def parseFloat_def read_sign_def num_or_def truthy_num_def
  is_digit_def digits_val_def read_exponent_def scale10_def

lemmas eval_row = cellTrim_def cell_row_of transId_def ticketAmt_def ticketQty_def seatInfo_def
  isComplimentary_def Let_def

lemmas eval_base = baseRecord_def referral_slot_def upt_conv_Cons str_or_def

lemma a750: "parseNumber ''750'' = Num 750" by (simp add: eval_num eval_text)

lemma a0: "parseNumber [] = Num 0" by (simp add: eval_num eval_text)

lemma a1: "parseNumber ''1'' = Num 1" by (simp add: eval_num eval_text)

lemma paid_amount: "parseNumber ''1,500'' = Num 1500"
  by (simp add: parseNumber_def parseFloat_def trim_def is_space_def read_sign_def num_or_def
        truthy_num_def is_digit_def digits_val_def read_exponent_def scale10_def)

lemma email_empty: "extractProtectedEmail [] = []" by (simp add: extractProtectedEmail_def)

lemma show_nat_small: "show_nat (Suc 0) = ''1''" "show_nat 2 = ''2''" "show_nat 3 = ''3''"
  by code_simp+

lemma comp_row_facts:
  "45 \<le> length comp_row" "isComplimentary comp_row" "ticketQty comp_row = Num (real 3)"
  "transId comp_row = ''T1''"
  by code_simp+

lemma comp_row_name: "customerName (baseRecord comp_row) = ''Disha Daga''"
  "Trans_Id (baseRecord comp_row) = ''T1''"
  by code_simp+

lemma comp_row_step:
  "process_row comp_row initial_state =
     Some (initial_state\<lparr>totalRowsProcessed := 1,
        registrations := map (entry_record (Num 3) ''T1'' (baseRecord comp_row)) [0, 1, 2]\<rparr>)"
proof -
  have n: "entriesToCreate comp_row = Num 3" by code_simp
  have u: "[0..<nat \<lceil>3::real\<rceil>] = [0, 1, 2]" by (simp add: upt_conv_Cons)
  from process_row_finite [OF comp_row_facts(1) n, of initial_state] u
  show ?thesis by (simp add: comp_row_facts initial_state_def)
qed

lemma comp_row_processed:
  "parse_table [header_row, data_row comp_row] =
     Some (initial_state\<lparr>totalRowsProcessed := 1,
        registrations := map (entry_record (Num 3) ''T1'' (baseRecord comp_row)) [0, 1, 2]\<rparr>)"
proof -
  have n: "entriesToCreate comp_row = Num 3" by code_simp
  have u: "[0..<nat \<lceil>3::real\<rceil>] = [0, 1, 2]" by (simp add: upt_conv_Cons)
  have "parse_table (header_row # map data_row [comp_row]) =
     Some (initial_state\<lparr>totalRowsProcessed := 1,
        registrations := map (entry_record (Num 3) ''T1'' (baseRecord comp_row)) [0, 1, 2]\<rparr>)"
    unfolding parse_table_rows
    using process_row_finite [OF comp_row_facts(1) n, of initial_state] u
    by (simp add: comp_row_facts initial_state_def)
  then show ?thesis by simp
qed

lemma paid_row_cells:
  "length paid_row = 54" "cell paid_row 11 = ''1,500''" "cellTrim paid_row 9 = []"
  "transId paid_row = ''T2''"
  by code_simp+

lemma paid_row_facts:
  "45 \<le> length paid_row" "\<not> isComplimentary paid_row" "transId paid_row = ''T2''"
  by (simp_all add: isComplimentary_def ticketAmt_def seatInfo_def paid_row_cells paid_amount
        num_or_def truthy_num_def)

lemma paid_row_name:
  "resolve_names paid_row =
     \<lparr>firstName = ''Diva'', lastName = ''Sheth'', custName = ''Diva Sheth'', phoneNumber = []\<rparr>"
  by (simp add: resolve_names_def names_final_def names_comp_def names_initial_def
      eval_row paid_row_def paid_amount a0 eval_text num_or_def truthy_num_def)

lemma paid_row_customer:
  "customerName (baseRecord paid_row) = ''Diva Sheth''"
  "first_name (baseRecord paid_row) = ''Diva''" "last_name (baseRecord paid_row) = ''Sheth''"
  by (simp_all add: baseRecord_def Let_def paid_row_name)

lemma endless_row_facts: "45 \<le> length endless_row" "entriesToCreate endless_row = PosInf"
  by code_simp+

lemma names_a: "resolve_names row_a = \<lparr>firstName = ''Asha'', lastName = ''Shah'', custName = ''Asha Shah'', phoneNumber = []\<rparr>"
  by (simp add: resolve_names_def names_final_def names_comp_def names_initial_def
      eval_row row_a_def a750 a0 a1 eval_text num_or_def truthy_num_def)

lemma names_b: "resolve_names row_b = \<lparr>firstName = ''Bela'', lastName = ''Shah'', custName = ''Bela Shah'', phoneNumber = []\<rparr>"
  by (simp add: resolve_names_def names_final_def names_comp_def names_initial_def
      eval_row row_b_def a750 a0 a1 eval_text num_or_def truthy_num_def)

lemma base_a: "(baseRecord row_a)\<lparr>registrationId := Some ''T7''\<rparr> = holder_a"
  by (simp add: eval_base names_a [unfolded row_a_def] 
      eval_row row_a_def a750 a0 a1 num_or_def truthy_num_def eval_text email_empty holder_a_def)

lemma base_b: "(baseRecord row_b)\<lparr>registrationId := Some ''T7''\<rparr> = holder_b"
  by (simp add: eval_base names_b [unfolded row_b_def] 
      eval_row row_b_def a750 a0 a1 num_or_def truthy_num_def eval_text email_empty holder_b_def)

lemma entries_ab: "entriesToCreate row_a = Num 1" "entriesToCreate row_b = Num 1"
  "transId row_a = ''T7''" "transId row_b = ''T7''"
  by (simp_all add: entriesToCreate_def eval_row row_a_def row_b_def a750 a0 a1 num_or_def truthy_num_def eval_text)

lemma rows_ab_parsed:
  "parse_table [header_row, data_row row_a, data_row row_b] =
     Some (initial_state\<lparr>totalRowsProcessed := 2, registrations := [holder_a, holder_b]\<rparr>)"
proof -
  have la: "45 \<le> length row_a" and lb: "45 \<le> length row_b"
    by (simp_all add: row_a_def row_b_def length_row_of)
  have "parse_table (header_row # map data_row [row_a, row_b]) =
     Some (initial_state\<lparr>totalRowsProcessed := 2, registrations := [holder_a, holder_b]\<rparr>)"
    unfolding parse_table_rows
    by (simp add: process_row_finite [OF la entries_ab(1)] process_row_finite [OF lb entries_ab(2)]
          entries_ab entry_record_def base_a base_b initial_state_def)
  then show ?thesis by simp
qed

lemma names_p: "resolve_names row_p = \<lparr>firstName = ''Maya'', lastName = ''Jain'', custName = ''Maya Jain'', phoneNumber = ''9820011111''\<rparr>"
  by (simp add: resolve_names_def names_final_def names_comp_def names_initial_def
      eval_row row_p_def a750 a0 a1 eval_text num_or_def truthy_num_def)

lemma names_q: "resolve_names row_q = \<lparr>firstName = ''Neel'', lastName = ''Jain'', custName = ''Neel Jain'', phoneNumber = ''9820022222''\<rparr>"
  by (simp add: resolve_names_def names_final_def names_comp_def names_initial_def
      eval_row row_q_def a750 a0 a1 eval_text num_or_def truthy_num_def)

lemma base_p: "(baseRecord row_p)\<lparr>registrationId := Some ''T5''\<rparr> = holder_p"
  by (simp add: eval_base names_p [unfolded row_p_def]
      eval_row row_p_def a750 a0 a1 num_or_def truthy_num_def eval_text email_empty holder_p_def)

lemma base_q: "(baseRecord row_q)\<lparr>registrationId := Some ''T5''\<rparr> = holder_q"
  by (simp add: eval_base names_q [unfolded row_q_def]
      eval_row row_q_def a750 a0 a1 num_or_def truthy_num_def eval_text email_empty holder_q_def)

lemma entries_pq: "entriesToCreate row_p = Num 1" "entriesToCreate row_q = Num 1"
  "transId row_p = ''T5''" "transId row_q = ''T5''"
  by (simp_all add: entriesToCreate_def eval_row row_p_def row_q_def a750 a0 a1 num_or_def truthy_num_def eval_text)

lemma rows_pq_parsed:
  "parse_table [header_row, data_row row_p, data_row row_q] =
     Some (initial_state\<lparr>totalRowsProcessed := 2, registrations := [holder_p, holder_q]\<rparr>)"
proof -
  have la: "45 \<le> length row_p" and lb: "45 \<le> length row_q"
    by (simp_all add: row_p_def row_q_def length_row_of)
  have "parse_table (header_row # map data_row [row_p, row_q]) =
     Some (initial_state\<lparr>totalRowsProcessed := 2, registrations := [holder_p, holder_q]\<rparr>)"
    unfolding parse_table_rows
    by (simp add: process_row_finite [OF la entries_pq(1)] process_row_finite [OF lb entries_pq(2)]
          entries_pq entry_record_def base_p base_q initial_state_def)
  then show ?thesis by simp
qed


section \<open>Ticket Expander: the records of one row\<close>

text \<open>
  Claim C5. A complimentary row of at least 45 cells whose ticket quantity is a whole
  number \<open>Q > 1\<close> adds exactly \<open>Q\<close> records, each a copy of the base record (which has
  \<open>Ticket_Qty\<close> and \<open>quantity\<close> 1) with the storage keys \<open>transId_comp_1\<close> to
  \<open>transId_comp_Q\<close> in this order. A row that is not complimentary, or whose quantity is
  at most 1, adds exactly one record, whose storage key is the transaction id itself.
\<close>

theorem ticket_expander:
  assumes "45 \<le> length cells"
  shows "(isComplimentary cells \<and> ticketQty cells = Num (real Q) \<and> 1 < Q \<longrightarrow>
            process_row cells st =
              Some (st\<lparr>totalRowsProcessed := Suc (totalRowsProcessed st),
                       registrations := registrations st @
                         map (\<lambda>k. (baseRecord cells)
                                   \<lparr>registrationId := Some (transId cells @ ''_comp_'' @ show_nat k)\<rparr>)
                             [1..<Suc Q]\<rparr>)
            \<and> Ticket_Qty (baseRecord cells) = Num 1 \<and> quantity (baseRecord cells) = Num 1)
       \<and> (\<not> isComplimentary cells \<or> js_le (ticketQty cells) (Num 1) \<longrightarrow>
            process_row cells st =
              Some (st\<lparr>totalRowsProcessed := Suc (totalRowsProcessed st),
                       registrations := registrations st @
                         [(baseRecord cells)\<lparr>registrationId := Some (transId cells)\<rparr>]\<rparr>))"
proof (intro conjI impI)
  assume h: "isComplimentary cells \<and> ticketQty cells = Num (real Q) \<and> 1 < Q"
  then have n: "entriesToCreate cells = Num (real Q)"
    by (simp add: entriesToCreate_def)
  have "map (entry_record (Num (real Q)) (transId cells) (baseRecord cells)) [0..<Q]
        = map (\<lambda>k. (baseRecord cells)
                 \<lparr>registrationId := Some (transId cells @ ''_comp_'' @ show_nat k)\<rparr>)
              (map Suc [0..<Q])"
    using h by (simp add: entry_record_def)
  then show "process_row cells st =
              Some (st\<lparr>totalRowsProcessed := Suc (totalRowsProcessed st),
                       registrations := registrations st @
                         map (\<lambda>k. (baseRecord cells)
                                   \<lparr>registrationId := Some (transId cells @ ''_comp_'' @ show_nat k)\<rparr>)
                             [1..<Suc Q]\<rparr>)"
    by (simp add: process_row_finite [OF assms n] map_Suc_upt del: map_map)
  show "Ticket_Qty (baseRecord cells) = Num 1" by (simp add: baseRecord_def Let_def)
  show "quantity (baseRecord cells) = Num 1" by (simp add: baseRecord_def Let_def)
next
  assume h: "\<not> isComplimentary cells \<or> js_le (ticketQty cells) (Num 1)"
  then have n: "entriesToCreate cells = Num 1"
    by (auto simp: entriesToCreate_def js_le_def)
  show "process_row cells st =
              Some (st\<lparr>totalRowsProcessed := Suc (totalRowsProcessed st),
                       registrations := registrations st @
                         [(baseRecord cells)\<lparr>registrationId := Some (transId cells)\<rparr>]\<rparr>)"
    by (simp add: process_row_finite [OF assms n] entry_record_def)
qed

theorem ticket_expander_witness:
  "isComplimentary comp_row \<and> ticketQty comp_row = Num 3 \<and>
   process_row comp_row initial_state =
     Some (initial_state\<lparr>totalRowsProcessed := 1,
        registrations :=
          [(baseRecord comp_row)\<lparr>registrationId := Some ''T1_comp_1''\<rparr>,
           (baseRecord comp_row)\<lparr>registrationId := Some ''T1_comp_2''\<rparr>,
           (baseRecord comp_row)\<lparr>registrationId := Some ''T1_comp_3''\<rparr>]\<rparr>) \<and>
   \<not> isComplimentary paid_row \<and>
   process_row paid_row initial_state =
     Some (initial_state\<lparr>totalRowsProcessed := 1,
        registrations := [(baseRecord paid_row)\<lparr>registrationId := Some ''T2''\<rparr>]\<rparr>)"
proof -
  have u: "[Suc 0..<4] = [Suc 0, 2, 3]" by code_simp
  have i: "registrations initial_state = []" "totalRowsProcessed initial_state = 0"
    by (simp_all add: initial_state_def)
  from ticket_expander [OF comp_row_facts(1), where Q = 3 and st = initial_state] comp_row_facts
  have a: "process_row comp_row initial_state =
     Some (initial_state\<lparr>totalRowsProcessed := 1,
        registrations :=
          [(baseRecord comp_row)\<lparr>registrationId := Some ''T1_comp_1''\<rparr>,
           (baseRecord comp_row)\<lparr>registrationId := Some ''T1_comp_2''\<rparr>,
           (baseRecord comp_row)\<lparr>registrationId := Some ''T1_comp_3''\<rparr>]\<rparr>)"
    by (simp add: u i show_nat_small)
  from ticket_expander [OF paid_row_facts(1), where Q = 0 and st = initial_state] paid_row_facts
  have b: "process_row paid_row initial_state =
     Some (initial_state\<lparr>totalRowsProcessed := 1,
        registrations := [(baseRecord paid_row)\<lparr>registrationId := Some ''T2''\<rparr>]\<rparr>)"
    by (simp add: i)
  from a b comp_row_facts paid_row_facts show ?thesis by simp
qed


section \<open>The row loop: short rows and endless rows\<close>

text \<open>
  A row of fewer than 45 cells adds no record and counts as one skipped row
  (\<open>process_row_short\<close>). When no complimentary row carries an infinite quantity, the
  loop returns, having counted every row once and every short row as skipped; when one
  does, the loop does not return.
\<close>

lemma parse_rows_completes:
  assumes "\<forall>cells \<in> set rows. 45 \<le> length cells \<longrightarrow> entriesToCreate cells \<noteq> PosInf"
  shows "\<exists>st'. parse_rows rows st = Some st' \<and>
           totalRowsProcessed st' = totalRowsProcessed st + length rows \<and>
           skippedRows st' = skippedRows st + length (filter (\<lambda>cells. length cells < 45) rows)"
  using assms
proof (induction rows arbitrary: st)
  case Nil
  then show ?case by simp
next
  case (Cons cells rows)
  show ?case
  proof (cases "length cells < 45")
    case True
    let ?st1 = "st\<lparr>totalRowsProcessed := Suc (totalRowsProcessed st),
              skippedRows := Suc (skippedRows st)\<rparr>"
    from Cons.IH [of ?st1] Cons.prems True show ?thesis
      by (auto simp: process_row_short)
  next
    case False
    then have len: "45 \<le> length cells" by simp
    with Cons.prems have "entriesToCreate cells \<noteq> PosInf" by simp
    with entriesToCreate_cases [of cells] obtain q where q: "entriesToCreate cells = Num q"
      by auto
    let ?st1 = "st\<lparr>totalRowsProcessed := Suc (totalRowsProcessed st),
              registrations := registrations st @
                map (entry_record (Num q) (transId cells) (baseRecord cells)) [0..<nat \<lceil>q\<rceil>]\<rparr>"
    from Cons.IH [of ?st1] Cons.prems False show ?thesis
      by (auto simp: process_row_finite [OF len q])
  qed
qed

lemma parse_rows_endless:
  "cells \<in> set rows \<Longrightarrow> 45 \<le> length cells \<Longrightarrow> entriesToCreate cells = PosInf \<Longrightarrow>
   parse_rows rows st = None"
proof (induction rows arbitrary: st)
  case Nil
  then show ?case by simp
next
  case (Cons c rows)
  show ?case
  proof (cases "process_row c st")
    case None
    then show ?thesis by simp
  next
    case (Some st1)
    with Cons.prems process_row_endless [of cells st] have "cells \<noteq> c" by auto
    with Cons.prems have "cells \<in> set rows" by simp
    from Cons.IH [OF this Cons.prems(2,3)] Some show ?thesis by simp
  qed
qed

text \<open>
  Claim C8, which says that the batch completes for every input table. It does not: the
  quantity cell is read by \<open>parseFloat\<close>, which accepts the text \<open>Infinity\<close>; on a
  complimentary row the expansion loop then never reaches its bound. In the table below
  the short row is skipped and counted, and the next row keeps the loop from returning,
  so that the last row is never reached.
\<close>

theorem endless_expansion:
  "process_row short_row initial_state =
     Some (initial_state\<lparr>totalRowsProcessed := 1, skippedRows := 1\<rparr>) \<and>
   ticketQty endless_row = PosInf \<and> isComplimentary endless_row \<and>
   parse_table [header_row, data_row short_row, data_row endless_row, data_row comp_row] = None"
proof -
  have s: "process_row short_row initial_state =
     Some (initial_state\<lparr>totalRowsProcessed := 1, skippedRows := 1\<rparr>)"
    by (simp add: process_row_short short_row_def initial_state_def)
  have "parse_table (header_row # map data_row [short_row, endless_row, comp_row]) = None"
    unfolding parse_table_rows
    by (simp add: s process_row_endless endless_row_facts)
  moreover have "ticketQty endless_row = PosInf" "isComplimentary endless_row" by code_simp+
  ultimately show ?thesis using s by simp
qed


section \<open>The backfill pass, position by position\<close>

lemma fill_step_length: "length (fold (fill_step p) g s) = length s"
  by (induction g arbitrary: s) (auto simp: fill_step_def)

lemma fill_step_nth:
  "distinct g \<Longrightarrow> j < length s \<Longrightarrow>
   fold (fill_step p) g s ! j =
     (if j \<in> set g \<and> j \<noteq> p then fill_person (s ! p) (s ! j) else s ! j)"
proof (induction g arbitrary: s)
  case Nil
  then show ?case by simp
next
  case (Cons i g)
  let ?s = "fill_step p i s"
  have len: "length ?s = length s" by (simp add: fill_step_def)
  have p: "?s ! p = s ! p" by (simp add: fill_step_def)
  have other: "?s ! j = s ! j" if "j \<noteq> i" using that by (simp add: fill_step_def)
  have self: "?s ! i = (if i \<noteq> p then fill_person (s ! p) (s ! i) else s ! i)" if "i < length s"
    using that by (simp add: fill_step_def)
  from Cons.prems have d: "distinct g" and ni: "i \<notin> set g" by auto
  have "fold (fill_step p) (i # g) s ! j = fold (fill_step p) g ?s ! j" by simp
  also have "\<dots> = (if j \<in> set g \<and> j \<noteq> p then fill_person (?s ! p) (?s ! j) else ?s ! j)"
    using Cons.IH [OF d, of ?s] Cons.prems(2) len by simp
  also have "\<dots> = (if j \<in> set (i # g) \<and> j \<noteq> p then fill_person (s ! p) (s ! j) else s ! j)"
    using ni p other self Cons.prems(2) by (cases "j = i") auto
  finally show ?case .
qed

lemma fill_group_alt:
  "fill_group g store =
     (if 1 < length g then fold (fill_step (primaryHolder store g)) g store else store)"
  by (simp add: fill_group_def fill_step_def [abs_def] Let_def)

lemma fill_group_length: "length (fill_group g s) = length s"
  by (simp add: fill_group_alt fill_step_length)

lemma fill_group_nth:
  "distinct g \<Longrightarrow> j < length s \<Longrightarrow>
   fill_group g s ! j =
     (if 1 < length g \<and> j \<in> set g \<and> j \<noteq> primaryHolder s g
      then fill_person (s ! primaryHolder s g) (s ! j) else s ! j)"
  by (simp add: fill_group_alt fill_step_nth)

lemma primaryHolder_cong:
  "(\<And>i. i \<in> set g \<Longrightarrow> s ! i = t ! i) \<Longrightarrow> primaryHolder s g = primaryHolder t g"
  unfolding primaryHolder_def
  by (rule arg_cong [where f = "\<lambda>x. case x of None \<Rightarrow> hd g | Some p \<Rightarrow> p"], rule find_cong) auto

lemma primaryHolder_in: "g \<noteq> [] \<Longrightarrow> primaryHolder s g \<in> set g"
  by (auto simp: primaryHolder_def find_Some_iff split: option.splits)

lemma fold_fill_group_length: "length (fold fill_group gs s) = length s"
  by (induction gs arbitrary: s) (auto simp: fill_group_length)

lemma fold_fill_group_nth:
  assumes "\<forall>g \<in> set gs. distinct g \<and> g \<noteq> []"
      and "\<forall>a b. a < b \<and> b < length gs \<longrightarrow> set (gs ! a) \<inter> set (gs ! b) = {}"
      and "\<forall>g \<in> set gs. \<forall>i \<in> set g. i < length s"
      and "j < length s"
  shows "fold fill_group gs s ! j =
     (case find (\<lambda>g. j \<in> set g) gs of None \<Rightarrow> s ! j | Some g \<Rightarrow> fill_group g s ! j)"
  using assms
proof (induction gs arbitrary: s)
  case Nil
  then show ?case by simp
next
  case (Cons g gs)
  let ?s = "fill_group g s"
  have len: "length ?s = length s" by (rule fill_group_length)
  have dg: "distinct g" "g \<noteq> []" using Cons.prems(1) by auto
  have disj: "set g \<inter> set h = {}" if "h \<in> set gs" for h
  proof -
    from that obtain b where "b < length gs" "gs ! b = h" by (auto simp: in_set_conv_nth)
    with Cons.prems(2) [rule_format, of 0 "Suc b"] show ?thesis by simp
  qed
  have tail: "\<forall>a b. a < b \<and> b < length gs \<longrightarrow> set (gs ! a) \<inter> set (gs ! b) = {}"
  proof (intro allI impI)
    fix a b assume "a < b \<and> b < length gs"
    with Cons.prems(2) [rule_format, of "Suc a" "Suc b"] show "set (gs ! a) \<inter> set (gs ! b) = {}"
      by simp
  qed
  have IH: "fold fill_group gs ?s ! j =
     (case find (\<lambda>g. j \<in> set g) gs of None \<Rightarrow> ?s ! j | Some h \<Rightarrow> fill_group h ?s ! j)"
    using Cons.IH [of ?s] Cons.prems tail len by simp
  show ?case
  proof (cases "j \<in> set g")
    case True
    then have "find (\<lambda>g. j \<in> set g) gs = None"
      using disj by (auto simp: find_None_iff)
    with True IH show ?thesis by simp
  next
    case False
    have sj: "?s ! j = s ! j" using False dg Cons.prems(4) by (simp add: fill_group_nth)
    show ?thesis
    proof (cases "find (\<lambda>g. j \<in> set g) gs")
      case None
      with False IH sj show ?thesis by simp
    next
      case (Some h)
      then have h: "h \<in> set gs" "j \<in> set h" by (auto simp: find_Some_iff)
      then have dh: "distinct h" and bound: "\<forall>i\<in>set h. i < length s"
        using Cons.prems(1,3) by auto
      have agree: "?s ! i = s ! i" if "i \<in> set h" for i
      proof -
        from that disj [OF h(1)] have "i \<notin> set g" by auto
        moreover from that bound have "i < length s" by auto
        ultimately show ?thesis using dg by (simp add: fill_group_nth)
      qed
      then have ph: "primaryHolder ?s h = primaryHolder s h"
        by (intro primaryHolder_cong) auto
      have pin: "primaryHolder s h \<in> set h"
        using h(1) Cons.prems(1) by (intro primaryHolder_in) auto
      have "fill_group h ?s ! j = fill_group h s ! j"
        using dh Cons.prems(4) len ph agree [OF h(2)] agree [OF pin]
        by (simp add: fill_group_nth)
      with Some False IH show ?thesis by simp
    qed
  qed
qed

lemma groups_invariant:
  "m \<le> length s \<Longrightarrow>
   distinct (map fst (foldl (add_to_group s) [] [0..<m])) \<and>
   (\<forall>k. map_of (foldl (add_to_group s) [] [0..<m]) k =
      (if filter (\<lambda>i. Trans_Id (s ! i) = k) [0..<m] = [] then None
       else Some (filter (\<lambda>i. Trans_Id (s ! i) = k) [0..<m])))"
proof (induction m)
  case 0
  then show ?case by simp
next
  case (Suc m)
  let ?G = "foldl (add_to_group s) [] [0..<m]"
  let ?k0 = "Trans_Id (s ! m)"
  from Suc have d: "distinct (map fst ?G)"
    and mo: "\<And>k. map_of ?G k =
      (if filter (\<lambda>i. Trans_Id (s ! i) = k) [0..<m] = [] then None
       else Some (filter (\<lambda>i. Trans_Id (s ! i) = k) [0..<m]))"
    by auto
  have step: "foldl (add_to_group s) [] [0..<Suc m] = add_to_group s ?G m" by simp
  show ?case
  proof (cases "map_of ?G ?k0")
    case None
    then have new: "add_to_group s ?G m = ?G @ [(?k0, [m])]"
      by (simp add: add_to_group_def)
    from None have "?k0 \<notin> fst ` set ?G" by (simp add: map_of_eq_None_iff)
    with d have "distinct (map fst (?G @ [(?k0, [m])]))" by simp
    moreover have "map_of (?G @ [(?k0, [m])]) k =
      (if filter (\<lambda>i. Trans_Id (s ! i) = k) [0..<Suc m] = [] then None
       else Some (filter (\<lambda>i. Trans_Id (s ! i) = k) [0..<Suc m]))" for k
      using None mo [of k] mo [of ?k0]
      by (cases "k = ?k0") (auto simp: map_add_def split: option.splits if_splits)
    ultimately show ?thesis unfolding step new by blast
  next
    case (Some g)
    then have upd: "add_to_group s ?G m = AList.update ?k0 (g @ [m]) ?G"
      by (simp add: add_to_group_def)
    have "distinct (map fst (AList.update ?k0 (g @ [m]) ?G))"
      using d by (rule distinct_update)
    moreover have "map_of (AList.update ?k0 (g @ [m]) ?G) k =
      (if filter (\<lambda>i. Trans_Id (s ! i) = k) [0..<Suc m] = [] then None
       else Some (filter (\<lambda>i. Trans_Id (s ! i) = k) [0..<Suc m]))" for k
      using Some mo [of k] mo [of ?k0]
      by (cases "k = ?k0") (auto simp: update_conv' split: if_splits)
    ultimately show ?thesis unfolding step upd by blast
  qed
qed

lemma transactionGroups_distinct: "distinct (map fst (transactionGroups s))"
  using groups_invariant [of "length s" s] by (simp add: transactionGroups_def)

lemma transactionGroups_map_of:
  "map_of (transactionGroups s) k = (if group_of s k = [] then None else Some (group_of s k))"
  using groups_invariant [of "length s" s] by (simp add: transactionGroups_def group_of_def)

lemma transactionGroups_entry:
  "(k, g) \<in> set (transactionGroups s) \<longleftrightarrow> g = group_of s k \<and> g \<noteq> []"
proof -
  have "(k, g) \<in> set (transactionGroups s) \<longleftrightarrow> map_of (transactionGroups s) k = Some g"
    using transactionGroups_distinct [of s] by simp
  then show ?thesis by (auto simp: transactionGroups_map_of)
qed

lemma group_of_member: "i \<in> set (group_of s k) \<longleftrightarrow> i < length s \<and> Trans_Id (s ! i) = k"
  by (auto simp: group_of_def)

lemma group_of_distinct: "distinct (group_of s k)"
  by (simp add: group_of_def)

lemma find_group:
  assumes "j < length s"
  shows "find (\<lambda>g. j \<in> set g) (map snd (transactionGroups s)) = Some (group_of s (Trans_Id (s ! j)))"
proof -
  let ?g = "group_of s (Trans_Id (s ! j))"
  have jin: "j \<in> set ?g" using assms by (simp add: group_of_member)
  then have "(Trans_Id (s ! j), ?g) \<in> set (transactionGroups s)"
    by (auto simp: transactionGroups_entry)
  then have "?g \<in> set (map snd (transactionGroups s))" by force
  with jin have "\<exists>g \<in> set (map snd (transactionGroups s)). j \<in> set g"
    by (rule_tac x = "?g" in bexI)
  then have "find (\<lambda>g. j \<in> set g) (map snd (transactionGroups s)) \<noteq> None"
    unfolding find_None_iff by simp
  then obtain h where h: "find (\<lambda>g. j \<in> set g) (map snd (transactionGroups s)) = Some h"
    by auto
  then have "j \<in> set h" "h \<in> set (map snd (transactionGroups s))"
    by (auto simp: find_Some_iff)
  then obtain k where "(k, h) \<in> set (transactionGroups s)" by auto
  then have "h = group_of s k" by (simp add: transactionGroups_entry)
  with \<open>j \<in> set h\<close> have "h = ?g" by (simp add: group_of_member)
  with h show ?thesis by simp
qed

lemma groups_disjoint:
  assumes "a < b" "b < length (map snd (transactionGroups s))"
  shows "set (map snd (transactionGroups s) ! a) \<inter> set (map snd (transactionGroups s) ! b) = {}"
proof -
  let ?G = "transactionGroups s"
  from assms have a: "a < length ?G" and b: "b < length ?G" by auto
  have ea: "?G ! a \<in> set ?G" and eb: "?G ! b \<in> set ?G" using a b by auto
  have "fst (?G ! a) \<noteq> fst (?G ! b)"
    using transactionGroups_distinct [of s] assms(1) a b
    by (auto simp: distinct_conv_nth)
  moreover have "snd (?G ! a) = group_of s (fst (?G ! a))"
    using ea transactionGroups_entry [of "fst (?G ! a)" "snd (?G ! a)" s] by simp
  moreover have "snd (?G ! b) = group_of s (fst (?G ! b))"
    using eb transactionGroups_entry [of "fst (?G ! b)" "snd (?G ! b)" s] by simp
  ultimately show ?thesis using a b by (auto simp: group_of_member)
qed

lemma backfill_pass_length: "length (backfill_pass s) = length s"
  by (simp add: backfill_pass_def fold_fill_group_length)

lemma backfill_pass_nth:
  assumes "j < length s"
  shows "backfill_pass s ! j = fill_group (group_of s (Trans_Id (s ! j))) s ! j"
proof -
  let ?gs = "map snd (transactionGroups s)"
  have 1: "\<forall>g \<in> set ?gs. distinct g \<and> g \<noteq> []"
    by (auto simp: transactionGroups_entry group_of_distinct)
  have 2: "\<forall>a b. a < b \<and> b < length ?gs \<longrightarrow> set (?gs ! a) \<inter> set (?gs ! b) = {}"
    using groups_disjoint by blast
  have 3: "\<forall>g \<in> set ?gs. \<forall>i \<in> set g. i < length s"
    by (auto simp: transactionGroups_entry group_of_member)
  show ?thesis
    unfolding backfill_pass_def
    using fold_fill_group_nth [OF 1 2 3 assms] find_group [OF assms] by simp
qed

lemma backfill_pass_any_order:
  assumes "distinct ks" "set ks = Trans_Id ` set s"
  shows "fold fill_group (map (group_of s) ks) s = backfill_pass s"
proof (rule nth_equalityI)
  show "length (fold fill_group (map (group_of s) ks) s) = length (backfill_pass s)"
    by (simp add: fold_fill_group_length backfill_pass_length)
next
  fix j assume "j < length (fold fill_group (map (group_of s) ks) s)"
  then have j: "j < length s" by (simp add: fold_fill_group_length)
  let ?gs = "map (group_of s) ks"
  have ne: "group_of s k \<noteq> []" if "k \<in> set ks" for k
  proof -
    from that assms(2) obtain r where "r \<in> set s" "Trans_Id r = k" by auto
    then obtain i where "i < length s" "s ! i = r" by (auto simp: in_set_conv_nth)
    with \<open>Trans_Id r = k\<close> have "i \<in> set (group_of s k)" by (simp add: group_of_member)
    then show ?thesis by auto
  qed
  have 1: "\<forall>g \<in> set ?gs. distinct g \<and> g \<noteq> []"
    using ne by (auto simp: group_of_distinct)
  have 2: "\<forall>a b. a < b \<and> b < length ?gs \<longrightarrow> set (?gs ! a) \<inter> set (?gs ! b) = {}"
  proof (intro allI impI)
    fix a b assume ab: "a < b \<and> b < length ?gs"
    then have "ks ! a \<noteq> ks ! b" using assms(1) by (auto simp: distinct_conv_nth)
    with ab show "set (?gs ! a) \<inter> set (?gs ! b) = {}"
      by (auto simp: group_of_member)
  qed
  have 3: "\<forall>g \<in> set ?gs. \<forall>i \<in> set g. i < length s"
    by (auto simp: group_of_member)
  have kin: "Trans_Id (s ! j) \<in> set ks" using j assms(2) by auto
  have "find (\<lambda>g. j \<in> set g) ?gs = Some (group_of s (Trans_Id (s ! j)))"
  proof -
    have "\<exists>g \<in> set ?gs. j \<in> set g"
      using kin j by (intro bexI [of _ "group_of s (Trans_Id (s ! j))"]) (auto simp: group_of_member)
    then have "find (\<lambda>g. j \<in> set g) ?gs \<noteq> None" unfolding find_None_iff by simp
    then obtain h where h: "find (\<lambda>g. j \<in> set g) ?gs = Some h" by auto
    then have "j \<in> set h" "h \<in> set ?gs" by (auto simp: find_Some_iff)
    then obtain k where "h = group_of s k" by auto
    with \<open>j \<in> set h\<close> have "h = group_of s (Trans_Id (s ! j))" by (simp add: group_of_member)
    with h show ?thesis by simp
  qed
  with fold_fill_group_nth [OF 1 2 3 j]
  show "fold fill_group ?gs s ! j = backfill_pass s ! j"
    by (simp add: backfill_pass_nth [OF j])
qed

lemma backfill_pass_cases:
  assumes "j < length s"
  shows "backfill_pass s ! j =
     (let g = group_of s (Trans_Id (s ! j)); p = primaryHolder s g
      in if 1 < length g \<and> j \<noteq> p then fill_person (s ! p) (s ! j) else s ! j)"
proof -
  have "j \<in> set (group_of s (Trans_Id (s ! j)))" using assms by (simp add: group_of_member)
  then show ?thesis
    using assms by (simp add: backfill_pass_nth fill_group_nth group_of_distinct Let_def)
qed

lemma fill_person_reset: "transaction_fields_reset person (fill_person ph person) = person"
  by (simp add: transaction_fields_reset_def fill_person_def)

lemma reset_self: "transaction_fields_reset r r = r"
  by (simp add: transaction_fields_reset_def)

lemma backfill_pass_reset:
  "j < length s \<Longrightarrow> transaction_fields_reset (s ! j) (backfill_pass s ! j) = s ! j"
  by (simp add: backfill_pass_cases Let_def fill_person_reset reset_self)

lemma reset_person_fields:
  "transaction_fields_reset a b = a \<Longrightarrow>
     first_name b = first_name a \<and> last_name b = last_name a \<and> customerName b = customerName a \<and>
     phone b = phone a \<and> primary_phoneNo b = primary_phoneNo a \<and> email b = email a \<and>
     primary_email b = primary_email a \<and> age b = age a \<and> Trans_Id b = Trans_Id a \<and>
     registrationId b = registrationId a"
  unfolding transaction_fields_reset_def
  by (cases a, cases b) simp

lemma fill_person_idem: "fill_person p (fill_person p x) = fill_person p x"
  by (simp add: fill_person_def fill_str_def fill_num_def)

lemma fillTransactionDetails_Inr:
  "fillTransactionDetails store = Inr out \<Longrightarrow> out = backfill_pass store"
  by (simp add: fillTransactionDetails_def split: if_splits)

lemma backfill_pass_Trans_Id: "map Trans_Id (backfill_pass s) = map Trans_Id s"
proof (rule nth_equalityI)
  show "length (map Trans_Id (backfill_pass s)) = length (map Trans_Id s)"
    by (simp add: backfill_pass_length)
next
  fix i assume "i < length (map Trans_Id (backfill_pass s))"
  then have i: "i < length s" by (simp add: backfill_pass_length)
  from reset_person_fields [OF backfill_pass_reset [OF i]] i
  show "map Trans_Id (backfill_pass s) ! i = map Trans_Id s ! i"
    by (simp add: backfill_pass_length)
qed

lemma backfill_pass_customerName: "map customerName (backfill_pass s) = map customerName s"
proof (rule nth_equalityI)
  show "length (map customerName (backfill_pass s)) = length (map customerName s)"
    by (simp add: backfill_pass_length)
next
  fix i assume "i < length (map customerName (backfill_pass s))"
  then have i: "i < length s" by (simp add: backfill_pass_length)
  from reset_person_fields [OF backfill_pass_reset [OF i]] i
  show "map customerName (backfill_pass s) ! i = map customerName s ! i"
    by (simp add: backfill_pass_length)
qed

lemma group_of_cong:
  "map Trans_Id t = map Trans_Id s \<Longrightarrow> group_of t k = group_of s k"
proof -
  assume eq: "map Trans_Id t = map Trans_Id s"
  then have len: "length t = length s" by (rule map_eq_imp_length_eq)
  have "Trans_Id (t ! i) = Trans_Id (s ! i)" if "i < length s" for i
    using that len nth_map [of i t Trans_Id] nth_map [of i s Trans_Id] eq by simp
  then show ?thesis unfolding group_of_def len
    by (intro filter_cong) auto
qed

lemma primary_unchanged:
  assumes "j < length s" "j = primaryHolder s (group_of s (Trans_Id (s ! j)))"
  shows "backfill_pass s ! j = s ! j"
  using assms by (simp add: backfill_pass_cases Let_def)

lemma backfill_pass_again:
  assumes same: "\<And>k. group_of s k \<noteq> [] \<Longrightarrow>
                   primaryHolder (backfill_pass s) (group_of s k) = primaryHolder s (group_of s k)"
  shows "backfill_pass (backfill_pass s) = backfill_pass s"
proof (rule nth_equalityI)
  show "length (backfill_pass (backfill_pass s)) = length (backfill_pass s)"
    by (simp add: backfill_pass_length)
next
  fix j assume "j < length (backfill_pass (backfill_pass s))"
  then have j: "j < length s" by (simp add: backfill_pass_length)
  let ?t = "backfill_pass s"
  let ?g = "group_of s (Trans_Id (s ! j))"
  let ?p = "primaryHolder s ?g"
  have jt: "j < length ?t" using j by (simp add: backfill_pass_length)
  have tid: "Trans_Id (?t ! j) = Trans_Id (s ! j)"
    using reset_person_fields [OF backfill_pass_reset [OF j]] by simp
  have g: "group_of ?t (Trans_Id (?t ! j)) = ?g"
    by (simp add: tid group_of_cong [OF backfill_pass_Trans_Id])
  have jin: "j \<in> set ?g" using j by (simp add: group_of_member)
  then have ne: "?g \<noteq> []" by auto
  have p: "primaryHolder ?t ?g = ?p" using same [OF ne] .
  have pin: "?p \<in> set ?g" using ne by (rule primaryHolder_in)
  then have pl: "?p < length s" and ptid: "Trans_Id (s ! ?p) = Trans_Id (s ! j)"
    by (simp_all add: group_of_member)
  have tp: "?t ! ?p = s ! ?p"
    using pl ptid by (intro primary_unchanged) simp_all
  have c1: "?t ! j = (if 1 < length ?g \<and> j \<noteq> ?p then fill_person (s ! ?p) (s ! j) else s ! j)"
    by (simp only: backfill_pass_cases [OF j] Let_def)
  have c2: "backfill_pass ?t ! j =
      (if 1 < length ?g \<and> j \<noteq> ?p then fill_person (?t ! ?p) (?t ! j) else ?t ! j)"
    by (simp only: backfill_pass_cases [OF jt] Let_def g p)
  show "backfill_pass ?t ! j = ?t ! j"
  proof (cases "1 < length ?g \<and> j \<noteq> ?p")
    case True
    have "?t ! j = fill_person (s ! ?p) (s ! j)" by (simp only: c1 if_P [OF True])
    moreover have "backfill_pass ?t ! j = fill_person (?t ! ?p) (?t ! j)"
      by (simp only: c2 if_P [OF True])
    ultimately show ?thesis by (simp only: tp fill_person_idem)
  next
    case False
    show ?thesis by (simp only: c2 if_not_P [OF False])
  qed
qed

lemma primaryHolder_first:
  "g \<noteq> [] \<Longrightarrow> has_transaction_details (s ! hd g) \<Longrightarrow> primaryHolder s g = hd g"
  by (cases g) (simp_all add: primaryHolder_def)

lemma backfill_pass_first_complete:
  assumes "\<And>k. group_of s k \<noteq> [] \<Longrightarrow> has_transaction_details (s ! hd (group_of s k))"
  shows "backfill_pass (backfill_pass s) = backfill_pass s"
proof (rule backfill_pass_again)
  fix k assume ne: "group_of s k \<noteq> []"
  let ?g = "group_of s k"
  have p: "primaryHolder s ?g = hd ?g" using ne assms [OF ne] by (rule primaryHolder_first)
  have "hd ?g \<in> set ?g" using ne by simp
  then have l: "hd ?g < length s" and t: "Trans_Id (s ! hd ?g) = k"
    by (simp_all add: group_of_member)
  have "backfill_pass s ! hd ?g = s ! hd ?g"
    using l by (rule primary_unchanged) (simp add: t p)
  then have "has_transaction_details (backfill_pass s ! hd ?g)" using assms [OF ne] by simp
  with ne have "primaryHolder (backfill_pass s) ?g = hd ?g" by (rule primaryHolder_first)
  with p show "primaryHolder (backfill_pass s) ?g = primaryHolder s ?g" by simp
qed

lemma sample_fill: "fillTransactionDetails [holder_a, holder_b] = Inr [holder_a_dated, holder_b]"
  by code_simp

lemma sample_fill_again:
  "fillTransactionDetails [holder_a_dated, holder_b] = Inr [holder_a_dated, holder_b\<lparr>Seat_Info := ''A1''\<rparr>]"
  by code_simp

lemma sample_fill_later:
  "fillTransactionDetails [holder_c, holder_b] = Inr [holder_c_dated, holder_b]"
  "transactionGroups [holder_c, holder_b] = [(''T7'', [0, 1])]"
  "primaryHolder [holder_c, holder_b] [0, 1] = 1"
  "primaryHolder [holder_c_dated, holder_b] [0, 1] = 0"
  "fill_person holder_c_dated holder_b = holder_b"
  by code_simp+

lemma fill_str_absorb: "fill_str x q = x \<Longrightarrow> fill_str (fill_str y x) q = fill_str y x"
  by (simp add: fill_str_def split: if_splits)

lemma fill_num_absorb: "fill_num x q = x \<Longrightarrow> fill_num (fill_num y x) q = fill_num y x"
  by (simp add: fill_num_def split: if_splits)

lemma fill_person_fixed:
  "fill_person q x = x \<longleftrightarrow>
     fill_str (Trans_Date x) (Trans_Date q) = Trans_Date x \<and>
     fill_str (Cinema_Name x) (Cinema_Name q) = Cinema_Name x \<and>
     fill_str (Event_Name x) (Event_Name q) = Event_Name x \<and>
     fill_str (Show_Date_Disp x) (Show_Date_Disp q) = Show_Date_Disp x \<and>
     fill_num (Ticketwise_Qty x) (Ticketwise_Qty q) = Ticketwise_Qty x \<and>
     fill_str (Seat_Info x) (Seat_Info q) = Seat_Info x \<and>
     fill_num (Ticket_Qty x) (Ticket_Qty q) = Ticket_Qty x \<and>
     fill_num (Ticket_Amt x) (Ticket_Amt q) = Ticket_Amt x \<and>
     fill_str (Item_Desc x) (Item_Desc q) = Item_Desc x \<and>
     fill_num (ItemWise_Qty x) (ItemWise_Qty q) = ItemWise_Qty x \<and>
     fill_num (ItemWise_Amt x) (ItemWise_Amt q) = ItemWise_Amt x \<and>
     fill_num (Inv_Qty x) (Inv_Qty q) = Inv_Qty x \<and>
     fill_num (Inv_Amt x) (Inv_Amt q) = Inv_Amt x \<and>
     fill_str (Additional_Desc x) (Additional_Desc q) = Additional_Desc x \<and>
     fill_num (Add_strAmt x) (Add_strAmt q) = Add_strAmt x \<and>
     fill_num (Add_Charges x) (Add_Charges q) = Add_Charges x \<and>
     fill_str (Bkg_Commit x) (Bkg_Commit q) = Bkg_Commit x"
  by (cases x) (simp add: fill_person_def, blast)

lemma fill_person_absorb:
  assumes "fill_person q x = x"
  shows "fill_person q (fill_person x y) = fill_person x y"
proof -
  note h = assms [unfolded fill_person_fixed]
  have f: "fill_person x y =
     y\<lparr>Trans_Date := fill_str (Trans_Date y) (Trans_Date x),
            Cinema_Name := fill_str (Cinema_Name y) (Cinema_Name x),
            Event_Name := fill_str (Event_Name y) (Event_Name x),
            Show_Date_Disp := fill_str (Show_Date_Disp y) (Show_Date_Disp x),
            Ticketwise_Qty := fill_num (Ticketwise_Qty y) (Ticketwise_Qty x),
            Seat_Info := fill_str (Seat_Info y) (Seat_Info x),
            Ticket_Qty := fill_num (Ticket_Qty y) (Ticket_Qty x),
            Ticket_Amt := fill_num (Ticket_Amt y) (Ticket_Amt x),
            Item_Desc := fill_str (Item_Desc y) (Item_Desc x),
            ItemWise_Qty := fill_num (ItemWise_Qty y) (ItemWise_Qty x),
            ItemWise_Amt := fill_num (ItemWise_Amt y) (ItemWise_Amt x),
            Inv_Qty := fill_num (Inv_Qty y) (Inv_Qty x),
            Inv_Amt := fill_num (Inv_Amt y) (Inv_Amt x),
            Additional_Desc := fill_str (Additional_Desc y) (Additional_Desc x),
            Add_strAmt := fill_num (Add_strAmt y) (Add_strAmt x),
            Add_Charges := fill_num (Add_Charges y) (Add_Charges x),
            Bkg_Commit := fill_str (Bkg_Commit y) (Bkg_Commit x)\<rparr>"
    by (simp add: fill_person_def)
  show ?thesis
    unfolding f
    by (subst fill_person_def) (simp add: h fill_str_absorb fill_num_absorb)
qed

lemma backfill_pass_again_iff:
  "backfill_pass (backfill_pass s) = backfill_pass s \<longleftrightarrow>
     (\<forall>k. group_of s k \<noteq> [] \<longrightarrow>
        primaryHolder (backfill_pass s) (group_of s k) = primaryHolder s (group_of s k) \<or>
        fill_person (backfill_pass s ! primaryHolder (backfill_pass s) (group_of s k))
                    (s ! primaryHolder s (group_of s k)) = s ! primaryHolder s (group_of s k))"
  (is "?L \<longleftrightarrow> ?R")
proof
  let ?t = "backfill_pass s"
  assume L: ?L
  show ?R
  proof (intro allI impI)
    fix k assume ne: "group_of s k \<noteq> []"
    let ?g = "group_of s k"
    let ?p = "primaryHolder s ?g"
    let ?p2 = "primaryHolder ?t ?g"
    have pin: "?p \<in> set ?g" and p2in: "?p2 \<in> set ?g" using ne by (simp_all add: primaryHolder_in)
    then have pl: "?p < length s" and ptid: "Trans_Id (s ! ?p) = k"
      by (simp_all add: group_of_member)
    have plt: "?p < length ?t" using pl by (simp add: backfill_pass_length)
    have tp: "?t ! ?p = s ! ?p" using pl by (rule primary_unchanged) (simp add: ptid)
    have g: "group_of ?t (Trans_Id (?t ! ?p)) = ?g"
      by (simp add: tp ptid group_of_cong [OF backfill_pass_Trans_Id])
    show "?p2 = ?p \<or> fill_person (?t ! ?p2) (s ! ?p) = s ! ?p"
    proof (cases "?p2 = ?p")
      case True
      then show ?thesis by simp
    next
      case False
      have "distinct ?g" by (rule group_of_distinct)
      with pin p2in False have len: "1 < length ?g"
        by (cases ?g rule: list.exhaust; cases "tl ?g"; auto)
      have "backfill_pass ?t ! ?p = fill_person (?t ! ?p2) (?t ! ?p)"
        using len False by (simp only: backfill_pass_cases [OF plt] Let_def g) simp
      with L tp show ?thesis by simp
    qed
  qed
next
  let ?t = "backfill_pass s"
  assume R: ?R
  show ?L
  proof (rule nth_equalityI)
    show "length (backfill_pass ?t) = length ?t" by (simp add: backfill_pass_length)
  next
    fix j assume "j < length (backfill_pass ?t)"
    then have j: "j < length s" by (simp add: backfill_pass_length)
    let ?g = "group_of s (Trans_Id (s ! j))"
    let ?p = "primaryHolder s ?g"
    let ?p2 = "primaryHolder ?t ?g"
    have jt: "j < length ?t" using j by (simp add: backfill_pass_length)
    have tid: "Trans_Id (?t ! j) = Trans_Id (s ! j)"
      using reset_person_fields [OF backfill_pass_reset [OF j]] by simp
    have g: "group_of ?t (Trans_Id (?t ! j)) = ?g"
      by (simp add: tid group_of_cong [OF backfill_pass_Trans_Id])
    have jin: "j \<in> set ?g" using j by (simp add: group_of_member)
    then have ne: "?g \<noteq> []" by auto
    have pin: "?p \<in> set ?g" using ne by (rule primaryHolder_in)
    then have pl: "?p < length s" and ptid: "Trans_Id (s ! ?p) = Trans_Id (s ! j)"
      by (simp_all add: group_of_member)
    have tp: "?t ! ?p = s ! ?p"
      using pl ptid by (intro primary_unchanged) simp_all
    have c1: "?t ! j = (if 1 < length ?g \<and> j \<noteq> ?p then fill_person (s ! ?p) (s ! j) else s ! j)"
      by (simp only: backfill_pass_cases [OF j] Let_def)
    have c2: "backfill_pass ?t ! j =
        (if 1 < length ?g \<and> j \<noteq> ?p2 then fill_person (?t ! ?p2) (?t ! j) else ?t ! j)"
      by (simp only: backfill_pass_cases [OF jt] Let_def g)
    from R ne have alt: "?p2 = ?p \<or> fill_person (?t ! ?p2) (s ! ?p) = s ! ?p" by blast
    show "backfill_pass ?t ! j = ?t ! j"
    proof (cases "1 < length ?g \<and> j \<noteq> ?p2")
      case False
      show ?thesis by (simp only: c2 if_not_P [OF False])
    next
      case True
      have b: "backfill_pass ?t ! j = fill_person (?t ! ?p2) (?t ! j)"
        by (simp only: c2 if_P [OF True])
      show ?thesis
      proof (cases "j = ?p")
        case jp: True
        with True have "?p2 \<noteq> ?p" by auto
        with alt have "fill_person (?t ! ?p2) (s ! ?p) = s ! ?p" by simp
        with b tp jp show ?thesis by simp
      next
        case jp: False
        with True have c: "1 < length ?g \<and> j \<noteq> ?p" by simp
        have tj: "?t ! j = fill_person (s ! ?p) (s ! j)" by (simp only: c1 if_P [OF c])
        from alt show ?thesis
        proof
          assume "?p2 = ?p"
          then show ?thesis by (simp only: b tj tp fill_person_idem)
        next
          assume "fill_person (?t ! ?p2) (s ! ?p) = s ! ?p"
          from fill_person_absorb [OF this] show ?thesis by (simp only: b tj)
        qed
      qed
    qed
  qed
qed


section \<open>Transaction Backfill: what it leaves alone\<close>

text \<open>
  Claim C9. The backfill pass keeps the number and order of the records. On every record
  it changes nothing but the seventeen transaction-level fields: setting those back to
  their earlier values gives the earlier record. In particular first name, last name,
  display name, phones, e-mails and age stay as they were. The primary record of every
  group is not changed at all.
\<close>

theorem backfill_frame:
  assumes "fillTransactionDetails store = Inr out"
  shows "length out = length store \<and>
    (\<forall>i<length store.
       transaction_fields_reset (store ! i) (out ! i) = store ! i \<and>
       first_name (out ! i) = first_name (store ! i) \<and>
       last_name (out ! i) = last_name (store ! i) \<and>
       customerName (out ! i) = customerName (store ! i) \<and>
       primary_phoneNo (out ! i) = primary_phoneNo (store ! i) \<and>
       phone (out ! i) = phone (store ! i) \<and>
       primary_email (out ! i) = primary_email (store ! i) \<and>
       email (out ! i) = email (store ! i) \<and>
       age (out ! i) = age (store ! i) \<and>
       (i = primaryHolder store (group_of store (Trans_Id (store ! i))) \<longrightarrow> out ! i = store ! i))"
proof -
  have out: "out = backfill_pass store" using assms by (rule fillTransactionDetails_Inr)
  show ?thesis unfolding out
  proof (intro conjI allI impI)
    show "length (backfill_pass store) = length store" by (rule backfill_pass_length)
  next
    fix i assume i: "i < length store"
    note r = backfill_pass_reset [OF i]
    note f = reset_person_fields [OF r]
    show "transaction_fields_reset (store ! i) (backfill_pass store ! i) = store ! i" by (rule r)
    show "first_name (backfill_pass store ! i) = first_name (store ! i)" using f by simp
    show "last_name (backfill_pass store ! i) = last_name (store ! i)" using f by simp
    show "customerName (backfill_pass store ! i) = customerName (store ! i)" using f by simp
    show "primary_phoneNo (backfill_pass store ! i) = primary_phoneNo (store ! i)" using f by simp
    show "phone (backfill_pass store ! i) = phone (store ! i)" using f by simp
    show "primary_email (backfill_pass store ! i) = primary_email (store ! i)" using f by simp
    show "email (backfill_pass store ! i) = email (store ! i)" using f by simp
    show "age (backfill_pass store ! i) = age (store ! i)" using f by simp
    show "backfill_pass store ! i = store ! i"
      if "i = primaryHolder store (group_of store (Trans_Id (store ! i)))"
      using i that by (rule primary_unchanged)
  qed
qed

theorem backfill_frame_witness:
  "fillTransactionDetails [holder_a, holder_b] = Inr [holder_a_dated, holder_b] \<and>
   customerName holder_a_dated = customerName holder_a \<and>
   age holder_a_dated = age holder_a \<and>
   transaction_fields_reset holder_a holder_a_dated = holder_a \<and>
   primaryHolder [holder_a, holder_b] (group_of [holder_a, holder_b] (Trans_Id holder_b)) = 1"
proof -
  have p: "primaryHolder [holder_a, holder_b] (group_of [holder_a, holder_b] (Trans_Id holder_b)) = 1"
    by code_simp
  from backfill_frame [OF sample_fill]
  have "\<forall>i<2.
       transaction_fields_reset ([holder_a, holder_b] ! i) ([holder_a_dated, holder_b] ! i) = [holder_a, holder_b] ! i \<and>
       customerName ([holder_a_dated, holder_b] ! i) = customerName ([holder_a, holder_b] ! i) \<and>
       age ([holder_a_dated, holder_b] ! i) = age ([holder_a, holder_b] ! i)"
    by simp
  then have "transaction_fields_reset ([holder_a, holder_b] ! 0) ([holder_a_dated, holder_b] ! 0) = [holder_a, holder_b] ! 0 \<and>
       customerName ([holder_a_dated, holder_b] ! 0) = customerName ([holder_a, holder_b] ! 0) \<and>
       age ([holder_a_dated, holder_b] ! 0) = age ([holder_a, holder_b] ! 0)"
    by (rule allE [where x = 0]) simp
  with sample_fill p show ?thesis by simp
qed


section \<open>Transaction Backfill: a second pass\<close>

text \<open>
  Claim C2 says that a second pass changes nothing. It can: the table of \<open>row_a\<close> and
  \<open>row_b\<close> is parsed into \<open>holder_a\<close> and \<open>holder_b\<close>. The first pass takes the second
  record as primary, since the first has no transaction date, and completes the first. The
  second pass then finds the first record complete, takes it as primary, and copies its
  seat into the second record, which the first pass had left as it was.
\<close>

theorem backfill_not_idempotent:
  "parse_table [header_row, data_row row_a, data_row row_b] =
     Some (initial_state\<lparr>totalRowsProcessed := 2, registrations := [holder_a, holder_b]\<rparr>) \<and>
   fillTransactionDetails [holder_a, holder_b] = Inr [holder_a_dated, holder_b] \<and>
   fillTransactionDetails [holder_a_dated, holder_b] =
     Inr [holder_a_dated, holder_b\<lparr>Seat_Info := ''A1''\<rparr>] \<and>
   Seat_Info holder_b = [] \<and>
   [holder_a_dated, holder_b\<lparr>Seat_Info := ''A1''\<rparr>] \<noteq> [holder_a_dated, holder_b]"
proof -
  have "Seat_Info holder_b = []" by (simp add: holder_b_def)
  moreover from this have "Seat_Info (holder_b\<lparr>Seat_Info := ''A1''\<rparr>) \<noteq> Seat_Info holder_b"
    by simp
  then have "holder_b\<lparr>Seat_Info := ''A1''\<rparr> \<noteq> holder_b"
    by (rule contrapos_nn) (erule arg_cong)
  ultimately show ?thesis using rows_ab_parsed sample_fill sample_fill_again by simp
qed

text \<open>
  Claim C2, amended. A second pass changes nothing exactly when, in every transaction
  group, the record it takes as primary is the one the first pass took, or is a record
  that has nothing to give to that one: copying its transaction fields into the empty and
  zero fields of the first pass's primary leaves that record as it is. So the pass is
  idempotent on the ordinary group whose complete record comes late, and fails to be only
  when the first pass completes an earlier record that holds a value the primary lacks.
\<close>

theorem backfill_second_pass:
  assumes "fillTransactionDetails store = Inr out"
  shows "fillTransactionDetails out = Inr out \<longleftrightarrow>
     (\<forall>(k, g) \<in> set (transactionGroups store).
        primaryHolder out g = primaryHolder store g \<or>
        fill_person (out ! primaryHolder out g) (store ! primaryHolder store g)
          = store ! primaryHolder store g)"
proof -
  have out: "out = backfill_pass store" using assms by (rule fillTransactionDetails_Inr)
  have ex: "list_ex (\<lambda>r. Trans_Id r \<in> set object_prototype_keys) xs
            = list_ex (\<lambda>k. k \<in> set object_prototype_keys) (map Trans_Id xs)" for xs
    by (simp add: list_ex_iff)
  have "list_ex (\<lambda>r. Trans_Id r \<in> set object_prototype_keys) out
        = list_ex (\<lambda>r. Trans_Id r \<in> set object_prototype_keys) store"
    unfolding out ex by (simp only: backfill_pass_Trans_Id)
  moreover have "\<not> list_ex (\<lambda>r. Trans_Id r \<in> set object_prototype_keys) store"
    using assms by (auto simp: fillTransactionDetails_def split: if_splits)
  ultimately have run: "fillTransactionDetails out = Inr (backfill_pass out)"
    by (simp add: fillTransactionDetails_def)
  have groups: "(\<forall>(k, g) \<in> set (transactionGroups store). Q g) \<longleftrightarrow>
                (\<forall>k. group_of store k \<noteq> [] \<longrightarrow> Q (group_of store k))" for Q
  proof
    assume a: "\<forall>(k, g) \<in> set (transactionGroups store). Q g"
    show "\<forall>k. group_of store k \<noteq> [] \<longrightarrow> Q (group_of store k)"
    proof (intro allI impI)
      fix k assume "group_of store k \<noteq> []"
      then have "(k, group_of store k) \<in> set (transactionGroups store)"
        by (simp add: transactionGroups_entry)
      with a show "Q (group_of store k)" by auto
    qed
  next
    assume a: "\<forall>k. group_of store k \<noteq> [] \<longrightarrow> Q (group_of store k)"
    show "\<forall>(k, g) \<in> set (transactionGroups store). Q g"
    proof (intro ballI, clarify)
      fix k g assume "(k, g) \<in> set (transactionGroups store)"
      then have "g = group_of store k \<and> group_of store k \<noteq> []"
        by (auto simp: transactionGroups_entry)
      with a show "Q g" by simp
    qed
  qed
  have "fillTransactionDetails out = Inr out \<longleftrightarrow> backfill_pass out = out"
    by (simp add: run)
  also have "\<dots> \<longleftrightarrow> (\<forall>k. group_of store k \<noteq> [] \<longrightarrow>
        primaryHolder out (group_of store k) = primaryHolder store (group_of store k) \<or>
        fill_person (out ! primaryHolder out (group_of store k))
                    (store ! primaryHolder store (group_of store k))
          = store ! primaryHolder store (group_of store k))"
    unfolding out by (rule backfill_pass_again_iff)
  also have "\<dots> \<longleftrightarrow> (\<forall>(k, g) \<in> set (transactionGroups store).
        primaryHolder out g = primaryHolder store g \<or>
        fill_person (out ! primaryHolder out g) (store ! primaryHolder store g)
          = store ! primaryHolder store g)"
    by (rule groups [symmetric])
  finally show ?thesis .
qed

theorem backfill_second_pass_witness:
  "fillTransactionDetails [holder_c, holder_b] = Inr [holder_c_dated, holder_b] \<and>
   transactionGroups [holder_c, holder_b] = [(''T7'', [0, 1])] \<and>
   primaryHolder [holder_c, holder_b] [0, 1] = 1 \<and>
   primaryHolder [holder_c_dated, holder_b] [0, 1] = 0 \<and>
   fill_person holder_c_dated holder_b = holder_b \<and>
   fillTransactionDetails [holder_c_dated, holder_b] = Inr [holder_c_dated, holder_b]"
proof -
  have "\<forall>(k, g) \<in> set (transactionGroups [holder_c, holder_b]).
          primaryHolder [holder_c_dated, holder_b] g = primaryHolder [holder_c, holder_b] g \<or>
          fill_person ([holder_c_dated, holder_b] ! primaryHolder [holder_c_dated, holder_b] g)
                      ([holder_c, holder_b] ! primaryHolder [holder_c, holder_b] g)
            = [holder_c, holder_b] ! primaryHolder [holder_c, holder_b] g"
    by (simp add: sample_fill_later [unfolded One_nat_def])
  with backfill_second_pass [OF sample_fill_later(1)]
  have "fillTransactionDetails [holder_c_dated, holder_b] = Inr [holder_c_dated, holder_b]"
    by (simp only:)
  with sample_fill_later show ?thesis by simp
qed


section \<open>The display name\<close>

lemma dropWhile_snoc_nonempty: "\<not> P c \<Longrightarrow> dropWhile P (xs @ [c]) \<noteq> []"
  by (induction xs) auto

lemma trim_Cons_nonempty: "\<not> is_space c \<Longrightarrow> trim (c # s) \<noteq> []"
  by (simp add: trim_def dropWhile_snoc_nonempty)

lemma names_final_nonempty: "custName (names_final cells nv) \<noteq> []"
proof -
  have "\<not> is_space CHR ''G''" by (simp add: is_space_def)
  then have "trim (''Guest_'' @ take 8 (transId cells) @ '' '' @ []) \<noteq> []"
    using trim_Cons_nonempty [of "CHR ''G''"] by simp
  then show ?thesis by (simp add: names_final_def Let_def)
qed

lemma customerName_baseRecord: "customerName (baseRecord cells) \<noteq> []"
  by (simp add: baseRecord_def Let_def resolve_names_def names_final_nonempty)

lemma process_row_names:
  assumes "process_row cells st = Some st'"
  shows "\<exists>rs. registrations st' = registrations st @ rs \<and>
              (\<forall>r \<in> set rs. customerName r = customerName (baseRecord cells))"
proof (cases "length cells < 45")
  case True
  with assms show ?thesis by (auto simp: process_row_short)
next
  case False
  with assms obtain out where
    out: "entries_loop (entriesToCreate cells) (transId cells) (baseRecord cells) 0
            (registrations st) = Some out"
    and st': "registrations st' = out"
    by (auto simp: process_row_def Let_def split: option.splits)
  from entries_loop_result [OF out] obtain ks where
    "out = registrations st @
       map (entry_record (entriesToCreate cells) (transId cells) (baseRecord cells)) ks" ..
  with st' show ?thesis by (auto simp: entry_record_fields)
qed

lemma parse_rows_names:
  "parse_rows rows st = Some st' \<Longrightarrow> \<forall>r \<in> set (registrations st). customerName r \<noteq> [] \<Longrightarrow>
   \<forall>r \<in> set (registrations st'). customerName r \<noteq> []"
proof (induction rows arbitrary: st)
  case Nil
  then show ?case by simp
next
  case (Cons cells rows)
  from Cons.prems(1) obtain st1 where
    1: "process_row cells st = Some st1" and 2: "parse_rows rows st1 = Some st'"
    by (auto split: option.splits)
  from process_row_names [OF 1] Cons.prems(2)
  have "\<forall>r \<in> set (registrations st1). customerName r \<noteq> []"
    by (auto simp: customerName_baseRecord)
  with Cons.IH [OF 2] show ?case .
qed

text \<open>
  Claim C6. The record that the Schema Normalizer builds from a row has a non-empty
  display name (for a row of any length, so also for one of at least 45 cells). Every
  record that the Ticket Expander adds for the row carries this name, the backfill pass
  changes no display name, and so every record that the whole pipeline returns has a
  non-empty display name.
\<close>

theorem displayName_never_empty:
  "customerName (baseRecord cells) \<noteq> [] \<and>
   (\<forall>st st'. process_row cells st = Some st' \<longrightarrow>
      (\<exists>rs. registrations st' = registrations st @ rs \<and>
            (\<forall>r \<in> set rs. customerName r = customerName (baseRecord cells)))) \<and>
   (\<forall>store out. fillTransactionDetails store = Inr out \<longrightarrow>
      map customerName out = map customerName store) \<and>
   (\<forall>rows st out. parse_table rows = Some st \<and> fillTransactionDetails (registrations st) = Inr out
      \<longrightarrow> (\<forall>r \<in> set out. customerName r \<noteq> []))"
proof (intro conjI allI impI)
  show "customerName (baseRecord cells) \<noteq> []" by (rule customerName_baseRecord)
next
  fix st st' assume "process_row cells st = Some st'"
  then show "\<exists>rs. registrations st' = registrations st @ rs \<and>
            (\<forall>r \<in> set rs. customerName r = customerName (baseRecord cells))"
    by (rule process_row_names)
next
  fix store out assume "fillTransactionDetails store = Inr out"
  then have "out = backfill_pass store" by (rule fillTransactionDetails_Inr)
  then show "map customerName out = map customerName store"
    by (simp only: backfill_pass_customerName)
next
  fix rows st out
  assume h: "parse_table rows = Some st \<and> fillTransactionDetails (registrations st) = Inr out"
  then have names: "\<forall>r \<in> set (registrations st). customerName r \<noteq> []"
    unfolding parse_table_def by (intro parse_rows_names [where st' = st]) auto
  from h have "out = backfill_pass (registrations st)"
    by (intro fillTransactionDetails_Inr) simp
  then have "map customerName out = map customerName (registrations st)"
    by (simp only: backfill_pass_customerName)
  then have eq: "customerName ` set out = customerName ` set (registrations st)"
    by (simp only: set_map [symmetric])
  show "\<forall>r \<in> set out. customerName r \<noteq> []"
  proof
    fix r assume "r \<in> set out"
    then have "customerName r \<in> customerName ` set (registrations st)"
      unfolding eq [symmetric] by (rule imageI)
    then obtain r' where "r' \<in> set (registrations st)" "customerName r = customerName r'" ..
    with names show "customerName r \<noteq> []" by simp
  qed
qed

theorem displayName_never_empty_witness:
  "customerName (baseRecord comp_row) = ''Disha Daga'' \<and>
   customerName (baseRecord paid_row) = ''Diva Sheth'' \<and>
   process_row comp_row initial_state =
     Some (initial_state\<lparr>totalRowsProcessed := 1,
        registrations := map (entry_record (Num 3) ''T1'' (baseRecord comp_row)) [0, 1, 2]\<rparr>) \<and>
   parse_table [header_row, data_row comp_row] =
     Some (initial_state\<lparr>totalRowsProcessed := 1,
        registrations := map (entry_record (Num 3) ''T1'' (baseRecord comp_row)) [0, 1, 2]\<rparr>) \<and>
   fillTransactionDetails (map (entry_record (Num 3) ''T1'' (baseRecord comp_row)) [0, 1, 2]) =
     Inr (backfill_pass (map (entry_record (Num 3) ''T1'' (baseRecord comp_row)) [0, 1, 2])) \<and>
   map customerName (backfill_pass (map (entry_record (Num 3) ''T1'' (baseRecord comp_row)) [0, 1, 2]))
     = [''Disha Daga'', ''Disha Daga'', ''Disha Daga'']"
proof -
  let ?regs = "map (entry_record (Num 3) ''T1'' (baseRecord comp_row)) [0, 1, 2]"
  have keys: "''T1'' \<notin> set object_prototype_keys" by code_simp
  have f: "fillTransactionDetails ?regs = Inr (backfill_pass ?regs)"
    using keys by (simp add: fillTransactionDetails_def entry_record_def comp_row_name)
  from displayName_never_empty [of comp_row] f
  have "map customerName (backfill_pass ?regs) = map customerName ?regs"
    by blast
  then have "map customerName (backfill_pass ?regs) = [''Disha Daga'', ''Disha Daga'', ''Disha Daga'']"
    by (simp add: entry_record_def comp_row_name)
  with f comp_row_step comp_row_processed comp_row_name paid_row_customer show ?thesis by simp
qed


section \<open>Identity Matcher: what a claim excludes\<close>

lemma update_fresh: "k \<notin> fst ` set al \<Longrightarrow> AList.update k v al = al @ [(k, v)]"
  by (induction al) auto

lemma name_step_unclaimed:
  "name_step regs used m = Some reg \<Longrightarrow> reg \<in> set regs \<and> r_registrationId reg \<notin> used"
proof -
  have inv: "fst (foldl (best_step m) b cs) = Some reg \<Longrightarrow>
             fst b = Some reg \<or> reg \<in> set cs" for b cs
  proof (induction cs arbitrary: b)
    case Nil
    then show ?case by simp
  next
    case (Cons c cs)
    from Cons.prems have "fst (foldl (best_step m) (best_step m b c) cs) = Some reg" by simp
    from Cons.IH [OF this] show ?case
      by (auto simp: best_step_def split: if_splits)
  qed
  assume "name_step regs used m = Some reg"
  then have "fst (best_match m (nameMatchingRegs regs used m)) = Some reg"
    by (auto simp: name_step_def Let_def split: if_splits prod.splits option.splits)
  from inv [OF this [unfolded best_match_def]]
  have "reg \<in> set (nameMatchingRegs regs used m)" by simp
  then show ?thesis by (simp add: nameMatchingRegs_def)
qed

lemma phone_step_unclaimed:
  "phone_step regs used m = Some reg \<Longrightarrow> reg \<in> set regs \<and> r_registrationId reg \<notin> used"
  by (auto simp: phone_step_def find_Some_iff)

lemma email_step_unclaimed:
  "email_step regs used m = Some reg \<Longrightarrow> reg \<in> set regs \<and> r_registrationId reg \<notin> used"
  by (auto simp: email_step_def find_Some_iff)

lemma matchedReg_unclaimed:
  "matchedReg regs used m = Some reg \<Longrightarrow> reg \<in> set regs \<and> r_registrationId reg \<notin> used"
  unfolding matchedReg_def Let_def
  by (auto split: if_splits dest: name_step_unclaimed phone_step_unclaimed email_step_unclaimed)

lemma match_member_step:
  assumes "links_ok st"
  shows "links_ok (match_member regs st m) \<and>
         (arpitMemberRegistrations (match_member regs st m) = arpitMemberRegistrations st \<or>
          (\<exists>reg. reg \<in> set regs \<and> r_registrationId reg \<notin> usedRegistrationIds st \<and>
             arpitMemberRegistrations (match_member regs st m) =
               arpitMemberRegistrations st @ [(r_registrationId reg, m)]))"
proof (cases "matchedReg regs (usedRegistrationIds st) m")
  case None
  with assms show ?thesis by (simp add: match_member_def)
next
  case (Some reg)
  from matchedReg_unclaimed [OF Some]
  have r: "reg \<in> set regs" and fresh: "r_registrationId reg \<notin> usedRegistrationIds st" by auto
  from fresh assms have "r_registrationId reg \<notin> fst ` set (arpitMemberRegistrations st)"
    by (simp add: links_ok_def)
  then have upd: "AList.update (r_registrationId reg) m (arpitMemberRegistrations st)
                  = arpitMemberRegistrations st @ [(r_registrationId reg, m)]"
    by (rule update_fresh)
  have "links_ok (match_member regs st m)"
    using assms fresh by (auto simp: match_member_def Some upd links_ok_def)
  moreover have "arpitMemberRegistrations (match_member regs st m) =
               arpitMemberRegistrations st @ [(r_registrationId reg, m)]"
    by (simp add: match_member_def Some upd)
  ultimately show ?thesis using r fresh by blast
qed

lemma match_loop:
  assumes "links_ok st"
  shows "links_ok (foldl (match_member regs) st members) \<and>
         (\<exists>new. arpitMemberRegistrations (foldl (match_member regs) st members)
                  = arpitMemberRegistrations st @ new \<and>
                subseq (map snd new) members \<and>
                (\<forall>k \<in> fst ` set new. \<exists>reg \<in> set regs. r_registrationId reg = k))"
  using assms
proof (induction members arbitrary: st)
  case Nil
  then show ?case by simp
next
  case (Cons m members)
  let ?st = "match_member regs st m"
  from match_member_step [OF Cons.prems, of regs m]
  have ok: "links_ok ?st"
    and step: "arpitMemberRegistrations ?st = arpitMemberRegistrations st \<or>
          (\<exists>reg. reg \<in> set regs \<and> r_registrationId reg \<notin> usedRegistrationIds st \<and>
             arpitMemberRegistrations ?st = arpitMemberRegistrations st @ [(r_registrationId reg, m)])"
    by auto
  from Cons.IH [OF ok] obtain new where
    fin: "links_ok (foldl (match_member regs) ?st members)"
    and new: "arpitMemberRegistrations (foldl (match_member regs) ?st members)
                = arpitMemberRegistrations ?st @ new"
    and sub: "subseq (map snd new) members"
    and src: "\<forall>k \<in> fst ` set new. \<exists>reg \<in> set regs. r_registrationId reg = k"
    by auto
  from step show ?case
  proof
    assume "arpitMemberRegistrations ?st = arpitMemberRegistrations st"
    with fin new sub src show ?thesis
      by (auto intro!: exI [of _ new])
  next
    assume "\<exists>reg. reg \<in> set regs \<and> r_registrationId reg \<notin> usedRegistrationIds st \<and>
             arpitMemberRegistrations ?st = arpitMemberRegistrations st @ [(r_registrationId reg, m)]"
    then obtain reg where "reg \<in> set regs"
      "arpitMemberRegistrations ?st = arpitMemberRegistrations st @ [(r_registrationId reg, m)]"
      by auto
    with fin new sub src show ?thesis
      by (auto intro!: exI [of _ "(r_registrationId reg, m) # new"])
  qed
qed

lemma claimed_ids_exclusive:
  "distinct (map fst (arpitMemberRegistrations (match_members regs members))) \<and>
   subseq (map snd (arpitMemberRegistrations (match_members regs members))) members \<and>
   fst ` set (arpitMemberRegistrations (match_members regs members))
     = usedRegistrationIds (match_members regs members) \<and>
   (\<forall>k \<in> usedRegistrationIds (match_members regs members). \<exists>reg \<in> set regs. r_registrationId reg = k)"
proof -
  let ?init = "\<lparr>arpitMemberRegistrations = [], usedRegistrationIds = {}\<rparr>"
  have "links_ok ?init" by (simp add: links_ok_def)
  from match_loop [OF this, of regs members]
  have ok: "links_ok (match_members regs members)"
    and sub: "subseq (map snd (arpitMemberRegistrations (match_members regs members))) members"
    and src: "\<forall>k \<in> fst ` set (arpitMemberRegistrations (match_members regs members)).
                \<exists>reg \<in> set regs. r_registrationId reg = k"
    unfolding match_members_def by auto
  from ok have used: "fst ` set (arpitMemberRegistrations (match_members regs members))
     = usedRegistrationIds (match_members regs members)"
    and dist: "distinct (map fst (arpitMemberRegistrations (match_members regs members)))"
    by (simp_all add: links_ok_def)
  from src have src': "\<forall>k \<in> usedRegistrationIds (match_members regs members).
                \<exists>reg \<in> set regs. r_registrationId reg = k"
    unfolding used .
  from dist sub used src' show ?thesis
    by (intro conjI) assumption+
qed

lemma stored_pq:
  "fillTransactionDetails [holder_p, holder_q] = Inr [holder_p, holder_q]"
  "fetch_registrations (map document_of [holder_p, holder_q]) = [doc_p, doc_q]"
  by code_simp+

lemma match_pq:
  "matchedReg [doc_p, doc_q] {} member_p = Some doc_p"
  "matchedReg [doc_p, doc_q] {IdString ''T5''} member_q = None"
  "arpitMemberRegistrations (match_members [doc_p, doc_q] [member_p, member_q])
     = [(IdString ''T5'', member_p)]"
  "arpitMember (match_members [doc_p, doc_q] [member_p, member_q]) doc_p = Some member_p"
  "arpitMember (match_members [doc_p, doc_q] [member_p, member_q]) doc_q = Some member_p"
  by code_simp+

lemma docs_pq_differ: "doc_p \<noteq> doc_q" "member_p \<noteq> member_q"
  "r_registrationId doc_p = IdString ''T5''" "r_registrationId doc_q = IdString ''T5''"
  by (simp_all add: doc_p_def doc_q_def member_p_def member_q_def blank_member_def)

text \<open>
  Claim C7, which says that every member is paired with at most one registration and
  every registration with at most one member. The map and the set of the matching loop
  know a registration by its \<open>registrationId\<close>, and what the loop keeps apart are ids
  (\<open>claimed_ids_exclusive\<close>), not registrations. The scraper gives every row of a paid
  transaction the transaction id as its \<open>registrationId\<close>; only the copies of a
  complimentary row get a suffix that tells them apart. Here two people bought under one
  transaction and both are on the roster. The table is parsed into two records with one
  id, and they are stored and fetched as two documents. The first member claims the id
  through her own registration; the lookup of the statistics then returns her for the
  registration of the second person as well, so she is paired with two registrations,
  while the second member finds his registration already claimed and stays unmatched.
\<close>

theorem shared_id_pairs_one_member_twice:
  "parse_table [header_row, data_row row_p, data_row row_q] =
     Some (initial_state\<lparr>totalRowsProcessed := 2, registrations := [holder_p, holder_q]\<rparr>) \<and>
   fillTransactionDetails [holder_p, holder_q] = Inr [holder_p, holder_q] \<and>
   fetch_registrations (map document_of [holder_p, holder_q]) = [doc_p, doc_q] \<and>
   doc_p \<noteq> doc_q \<and> member_p \<noteq> member_q \<and>
   r_registrationId doc_p = IdString ''T5'' \<and> r_registrationId doc_q = IdString ''T5'' \<and>
   matchedReg [doc_p, doc_q] {} member_p = Some doc_p \<and>
   matchedReg [doc_p, doc_q] {IdString ''T5''} member_q = None \<and>
   arpitMemberRegistrations (match_members [doc_p, doc_q] [member_p, member_q])
     = [(IdString ''T5'', member_p)] \<and>
   arpitMember (match_members [doc_p, doc_q] [member_p, member_q]) doc_p = Some member_p \<and>
   arpitMember (match_members [doc_p, doc_q] [member_p, member_q]) doc_q = Some member_p"
  using rows_pq_parsed stored_pq match_pq docs_pq_differ by simp


section \<open>Identity Matcher: a single candidate without phone or e-mail\<close>

lemma best_match_unconfirmed:
  "\<forall>reg \<in> set candidates. score m reg = 0 \<Longrightarrow> best_match m candidates = (None, 0)"
  unfolding best_match_def
  by (induction candidates) (auto simp: best_step_def)

lemma name_step_unconfirmed:
  "\<forall>reg \<in> set (nameMatchingRegs regs used m). score m reg = 0 \<Longrightarrow> name_step regs used m = None"
  by (simp add: name_step_def Let_def best_match_unconfirmed)

text \<open>
  Claim C1, which says that a member whose name matches exactly one unclaimed
  registration is paired with it even when neither phone nor e-mail confirms the match.
  The scoring loop keeps a candidate only when its score exceeds the best score so far,
  which starts at 0; a candidate of score 0 is never kept, and the test for a single
  candidate that follows the loop finds no best match to accept. Here the only candidate
  scores 0 and the member stays unmatched.
\<close>

theorem lone_name_match_rejected:
  "nameMatchingRegs [lone_reg] {} lone_member = [lone_reg] \<and>
   score lone_member lone_reg = 0 \<and>
   name_step [lone_reg] {} lone_member = None \<and>
   matchedReg [lone_reg] {} lone_member = None \<and>
   arpitMemberRegistrations (match_members [lone_reg] [lone_member]) = []"
  by code_simp


section \<open>Phone keys\<close>

lemma phone_keys_agree:
  "length (strip_separators s) \<noteq> 10 \<or> \<not> startsWith (strip_separators s) ''91'' \<Longrightarrow>
   last10 (Some (strip_91 (strip_separators s))) = last10 (Some (strip_91_long (strip_separators s)))"
  by (auto simp: last10_def strip_91_def strip_91_long_def)

text \<open>
  Claim C4, which says that one normalization gives the same ten-digit key for members,
  historical participants and registrations. The member matching removes a leading
  \<open>91\<close> from every number, the previous-participant lookup only from numbers longer than
  ten characters. For the ten-digit number 9123456789 the matching therefore has no key,
  for the member as for the registration, while the lookup of returning participants
  has the key 9123456789 for the participant and for the registration.
\<close>

theorem phone_keys_differ:
  "m_mobileNumber phone_91_member = Some ''9123456789'' \<and>
   p_phone phone_91_participant = Some ''9123456789'' \<and>
   regPhone phone_91_reg = ''9123456789'' \<and>
   member_phone10 phone_91_member = None \<and>
   matching_regPhone10 phone_91_reg = None \<and>
   participant_phone10 phone_91_participant = Some ''9123456789'' \<and>
   returning_phone10 phone_91_reg = Some ''9123456789''"
  by code_simp


section \<open>Referral histogram: who is counted\<close>

lemma inviteeCount_le: "inviteeCount reg \<le> 5"
proof -
  have "length (filter (slot_filled reg) [1..<6]) \<le> length [1..<6::nat]"
    by (rule length_filter_le)
  then show ?thesis by (simp add: inviteeCount_def)
qed

lemma referral_step_length: "length (referral_step stats reg) = length stats"
  by (simp add: referral_step_def)

lemma referral_step_nth:
  "length stats = 6 \<Longrightarrow> k < 6 \<Longrightarrow>
   referral_step stats reg ! k =
     stats ! k + (if \<not> skipped_by_cutoff reg \<and> inviteeCount reg = k then 1 else 0)"
  using inviteeCount_le [of reg] by (auto simp: referral_step_def nth_list_update)

lemma referral_fold_nth:
  "length stats = 6 \<Longrightarrow> k < 6 \<Longrightarrow>
   foldl referral_step stats regs ! k =
     stats ! k + length (filter (\<lambda>reg. \<not> skipped_by_cutoff reg \<and> inviteeCount reg = k) regs)"
proof (induction regs arbitrary: stats)
  case Nil
  then show ?case by simp
next
  case (Cons reg regs)
  have "length (referral_step stats reg) = 6" using Cons.prems(1) by (simp add: referral_step_length)
  from Cons.IH [OF this Cons.prems(2)] referral_step_nth [OF Cons.prems, of reg]
  show ?case by simp
qed

lemma date_key_nonempty: "date_key s \<noteq> []"
  by (simp add: date_key_def Let_def)

lemma skipped_by_cutoff_iff:
  "skipped_by_cutoff reg \<longleftrightarrow>
     (\<exists>s. r_Trans_Date reg = Some s \<and> s \<noteq> [] \<and> \<not> str_less (date_key s) referralCutoffDate)"
  by (auto simp: skipped_by_cutoff_def parseTransDate_def str_ge_def date_key_nonempty
           split: option.splits if_splits)

lemma projected_fields:
  "r_Trans_Date (projected reg) = r_Trans_Date reg"
  "skipped_by_cutoff (projected reg) = skipped_by_cutoff reg"
  by (simp_all add: projected_def skipped_by_cutoff_def)

lemma projected_inviteeCount: "inviteeCount (projected reg) = 0"
  by (simp add: inviteeCount_def slot_filled_def at_index_def projected_def)

lemma referral_step_sum:
  "length stats = 6 \<Longrightarrow>
   sum_list (referral_step stats reg) = sum_list stats + (if skipped_by_cutoff reg then 0 else 1)"
  using inviteeCount_le [of reg] by (simp add: referral_step_def sum_list_update)

lemma referral_fold_sum:
  "length stats = 6 \<Longrightarrow>
   sum_list (foldl referral_step stats regs) =
     sum_list stats + length (filter (\<lambda>reg. \<not> skipped_by_cutoff reg) regs)"
proof (induction regs arbitrary: stats)
  case Nil
  then show ?case by simp
next
  case (Cons reg regs)
  have "length (referral_step stats reg) = 6" using Cons.prems by (simp add: referral_step_length)
  from Cons.IH [OF this] referral_step_sum [OF Cons.prems, of reg]
  show ?case by simp
qed

lemma referral_fold_length: "length (foldl referral_step stats regs) = length stats"
  by (induction regs arbitrary: stats) (simp_all add: referral_step_length)

lemma sample_dates:
  "date_key ''08-10-2025 21:15:00'' = ''2025-10-08''"
  "date_key ''09-10-2025 00:00:01'' = ''2025-10-09''"
  "skipped_by_cutoff late_reg" "\<not> skipped_by_cutoff early_reg" "\<not> skipped_by_cutoff undated_reg"
  by code_simp+

text \<open>
  Claim C3 says that a registration whose date cannot be parsed is left out of the
  histogram. A registration whose transaction date is the empty string, for which
  \<open>parseTransDate\<close> returns \<open>null\<close>, is counted.
\<close>

theorem referral_histogram_undated:
  "r_Trans_Date undated_reg = Some [] \<and> parseTransDate (r_Trans_Date undated_reg) = None \<and>
   referralStats [undated_reg] = [1, 0, 0, 0, 0, 0]"
  by code_simp

text \<open>
  Claim C3, amended. The histogram has six buckets, and it counts a registration, once,
  exactly when the cutoff test does not skip it: the registrations counted are as many as
  those not skipped. The test skips a registration exactly when it has a non-empty
  transaction date whose date key (year, month, day, rebuilt from the text before the
  first space) is not below \<open>2025-10-09\<close> as a string; so a registration is counted when
  its date is missing or empty or its date key is below the cutoff. The form of the
  registration is not consulted. Nothing is said here of the bucket in which a
  registration is counted.
\<close>

theorem referral_histogram_counted:
  "length (referralStats collection) = 6 \<and>
   sum_list (referralStats collection)
     = length (filter (\<lambda>reg. \<not> skipped_by_cutoff reg) collection) \<and>
   (\<not> skipped_by_cutoff reg \<longleftrightarrow>
      r_Trans_Date reg = None \<or> r_Trans_Date reg = Some [] \<or>
      (\<exists>s. r_Trans_Date reg = Some s \<and> str_less (date_key s) referralCutoffDate))"
proof (intro conjI)
  show "length (referralStats collection) = 6"
    by (simp add: referralStats_def referral_fold_length)
  have "sum_list (referralStats collection)
        = length (filter (\<lambda>reg. \<not> skipped_by_cutoff reg) (map projected collection))"
    by (simp add: referralStats_def fetch_registrations_def referral_fold_sum)
  also have "\<dots> = length (filter (\<lambda>reg. \<not> skipped_by_cutoff reg) collection)"
    by (simp add: filter_map o_def projected_fields)
  finally show "sum_list (referralStats collection)
     = length (filter (\<lambda>reg. \<not> skipped_by_cutoff reg) collection)" .
  show "\<not> skipped_by_cutoff reg \<longleftrightarrow>
      r_Trans_Date reg = None \<or> r_Trans_Date reg = Some [] \<or>
      (\<exists>s. r_Trans_Date reg = Some s \<and> str_less (date_key s) referralCutoffDate)"
    unfolding skipped_by_cutoff_iff by (cases "r_Trans_Date reg") auto
qed

theorem referral_histogram_counted_witness:
  "sum_list (referralStats [early_reg, late_reg, undated_reg]) = 2 \<and>
   r_Trans_Date early_reg = Some ''08-10-2025 21:15:00'' \<and>
   str_less (date_key ''08-10-2025 21:15:00'') referralCutoffDate \<and>
   \<not> skipped_by_cutoff early_reg \<and> skipped_by_cutoff late_reg \<and>
   \<not> skipped_by_cutoff undated_reg"
proof -
  have d: "r_Trans_Date early_reg = Some ''08-10-2025 21:15:00''" by code_simp
  have l: "str_less (date_key ''08-10-2025 21:15:00'') referralCutoffDate" by code_simp
  from referral_histogram_counted [of "[early_reg, late_reg, undated_reg]" early_reg]
  have "sum_list (referralStats [early_reg, late_reg, undated_reg]) = 2"
    and "\<not> skipped_by_cutoff early_reg"
    using d l by (simp_all add: sample_dates)
  then show ?thesis using d l sample_dates by simp
qed

end
